theory Spec2Isabelle
  imports Complex_Main "HOL-Library.Sublist" "HOL-Library.Multiset" "HOL-Library.Word"
begin

section \<open>Python values, effects and text\<close>

text \<open>
  The five scripts of \<open>multidrill/\<close> are modelled: the four strategy runners
  (\<open>01_sequential.py\<close>, \<open>02_threadpool.py\<close>, \<open>03_processpool.py\<close>, \<open>04_hybrid.py\<close>) and
  \<open>run_all_comparison.py\<close>. What a script does beyond computing a value is written down as
  a trace of effects: a call of \<open>time.sleep\<close>, a call of \<open>print\<close>, the launch of a
  subprocess.
\<close>

datatype effect = Sleep nat | Print string | Launch string

datatype py_error = ZeroDivisionError | ValueError

definition newline :: char where
  "newline = CHR 0x0A"

text \<open>\<open>print(s)\<close> writes \<open>s\<close> followed by a line break.\<close>

definition py_print :: "string \<Rightarrow> effect" where
  "py_print s = Print (s @ [newline])"

text \<open>The text a trace leaves on standard output.\<close>

fun stdout_of :: "effect list \<Rightarrow> string" where
  "stdout_of [] = []"
| "stdout_of (Print s # es) = s @ stdout_of es"
| "stdout_of (Sleep d # es) = stdout_of es"
| "stdout_of (Launch p # es) = stdout_of es"

text \<open>The subprocesses a trace launches, in order.\<close>

fun launches_of :: "effect list \<Rightarrow> string list" where
  "launches_of [] = []"
| "launches_of (Launch p # es) = p # launches_of es"
| "launches_of (Print s # es) = launches_of es"
| "launches_of (Sleep d # es) = launches_of es"

text \<open>The decimal text of an integer: decimal digits, a minus sign when negative.\<close>

definition digit_char :: "nat \<Rightarrow> char" where
  "digit_char d = ''0123456789'' ! d"

function str_nat :: "nat \<Rightarrow> string" where
  "str_nat n = (if n < 10 then [digit_char n] else str_nat (n div 10) @ [digit_char (n mod 10)])"
  by pat_completeness auto
termination
  by (relation "measure id") auto

declare str_nat.simps [simp del]

definition decimal :: "int \<Rightarrow> string" where
  "decimal i = (if i < 0 then CHR ''-'' # str_nat (nat (- i)) else str_nat (nat i))"

text \<open>
  \<open>str(n)\<close>, and the conversion of an integer inside an f-string. CPython refuses to
  convert an integer of more than \<open>sys.int_max_str_digits\<close> decimal digits, the sign not
  counted, and raises \<open>ValueError\<close>; the default limit is 4300.
\<close>

definition int_max_str_digits :: nat where
  "int_max_str_digits = 4300"

text \<open>The number of decimal digits of an integer.\<close>

definition digits :: "int \<Rightarrow> nat" where
  "digits i = length (str_nat (nat \<bar>i\<bar>))"

definition py_str :: "int \<Rightarrow> py_error + string" where
  "py_str i = (if int_max_str_digits < digits i then Inl ValueError else Inr (decimal i))"

text \<open>\<open>"=" * 50\<close>, and the format specifications \<open>{s:<w}\<close> and \<open>{s:>w}\<close>.\<close>

definition str_times :: "char \<Rightarrow> nat \<Rightarrow> string" where
  "str_times c k = replicate k c"

definition ljust :: "nat \<Rightarrow> string \<Rightarrow> string" where
  "ljust w s = s @ replicate (w - length s) CHR '' ''"

definition rjust :: "nat \<Rightarrow> string \<Rightarrow> string" where
  "rjust w s = replicate (w - length s) CHR '' '' @ s"

section \<open>The workload function\<close>

text \<open>
  \<open>square_number\<close> of \<open>01_sequential.py\<close>, \<open>02_threadpool.py\<close> and \<open>03_processpool.py\<close>
  (the three definitions are the same text): sleep two seconds, then format the line. The
  f-string converts its fields from left to right, and a conversion that raises ends the
  call with that exception, after the sleep.
\<close>

definition square_number :: "int \<Rightarrow> effect list \<times> (py_error + string)" where
  "square_number number =
     ([Sleep 2],
      (case py_str number of
         Inl e \<Rightarrow> Inl e
       | Inr a \<Rightarrow>
           (case py_str (number * number) of
              Inl e \<Rightarrow> Inl e
            | Inr b \<Rightarrow> Inr (''Square of '' @ a @ '' = '' @ b))))"

text \<open>
  \<open>square_number\<close> of \<open>04_hybrid.py\<close>. \<open>os.getpid()\<close> reads the identifier of the process
  the call runs in, a value of the C type \<open>pid_t\<close> (32 bits); it is the first argument
  here.
\<close>

definition square_number_hybrid :: "32 word \<Rightarrow> int \<Rightarrow> effect list \<times> (py_error + string)" where
  "square_number_hybrid getpid number =
     ([Sleep 2],
      (case py_str number of
         Inl e \<Rightarrow> Inl e
       | Inr a \<Rightarrow>
           (case py_str (number * number) of
              Inl e \<Rightarrow> Inl e
            | Inr b \<Rightarrow>
                (case py_str (uint getpid) of
                   Inl e \<Rightarrow> Inl e
                 | Inr p \<Rightarrow> Inr (''Square of '' @ a @ '' = '' @ b @ '' (PID: '' @ p @ '')'')))))"

definition numbers :: "int list" where
  "numbers = [1, 2, 3, 4, 5, 6, 7, 8, 9, 10, 11, 12, 13, 14]"

section \<open>Reading a result line back\<close>

text \<open>
  The properties below speak of the numbers embedded in a result line. These functions read them
  back from the text: the literal \<open>Square of\<close>, an integer, the literal \<open>=\<close>, an
  integer; anything after the second integer is ignored.
\<close>

definition is_digit :: "char \<Rightarrow> bool" where
  "is_digit c = (48 \<le> (of_char c :: nat) \<and> (of_char c :: nat) \<le> 57)"

definition digit_val :: "char \<Rightarrow> nat" where
  "digit_val c = of_char c - 48"

definition digits_val :: "string \<Rightarrow> nat" where
  "digits_val ds = foldl (\<lambda>a c. 10 * a + digit_val c) 0 ds"

definition no_digit_ahead :: "string \<Rightarrow> bool" where
  "no_digit_ahead rest = (case rest of [] \<Rightarrow> True | c # cs \<Rightarrow> \<not> is_digit c)"

definition read_nat :: "string \<Rightarrow> (nat \<times> string) option" where
  "read_nat s =
     (if takeWhile is_digit s = [] then None
      else Some (digits_val (takeWhile is_digit s), dropWhile is_digit s))"

fun read_int :: "string \<Rightarrow> (int \<times> string) option" where
  "read_int [] = None"
| "read_int (c # cs) =
     (if c = CHR ''-'' then map_option (\<lambda>(v, rest). (- int v, rest)) (read_nat cs)
      else map_option (\<lambda>(v, rest). (int v, rest)) (read_nat (c # cs)))"

definition expect :: "string \<Rightarrow> string \<Rightarrow> string option" where
  "expect lit s = (if prefix lit s then Some (drop (length lit) s) else None)"

definition embedded_numbers :: "string \<Rightarrow> (int \<times> int) option" where
  "embedded_numbers line =
     (case expect ''Square of '' line of
        None \<Rightarrow> None
      | Some s1 \<Rightarrow>
          (case read_int s1 of
             None \<Rightarrow> None
           | Some (n, s2) \<Rightarrow>
               (case expect '' = '' s2 of
                  None \<Rightarrow> None
                | Some s3 \<Rightarrow>
                    (case read_int s3 of
                       None \<Rightarrow> None
                     | Some (sq, s4) \<Rightarrow> Some (n, sq)))))"

definition embedded_square :: "string \<Rightarrow> int option" where
  "embedded_square line = map_option snd (embedded_numbers line)"

text \<open>
  The text of the line for a number, as the f-strings give it when every conversion
  succeeds.
\<close>

definition line_of :: "int \<Rightarrow> string" where
  "line_of n = ''Square of '' @ decimal n @ '' = '' @ decimal (n * n)"

definition line_of_hybrid :: "32 word \<Rightarrow> int \<Rightarrow> string" where
  "line_of_hybrid p n = line_of n @ '' (PID: '' @ decimal (uint p) @ '')''"

text \<open>
  A list of result lines holds the square of every input number exactly once, with one
  line per input number.
\<close>

definition each_square_once :: "string list \<Rightarrow> bool" where
  "each_square_once results =
     (length results = length numbers \<and>
      list_all (\<lambda>n. count_list (map embedded_square results) (Some (n * n)) = 1) numbers)"

text \<open>Removing the process identifier the hybrid runner appends to a line.\<close>

fun strip_pid :: "string \<Rightarrow> string" where
  "strip_pid [] = []"
| "strip_pid (c # cs) =
     (if prefix '' (PID: '' (c # cs) \<and> suffix '')'' (c # cs) then [] else c # strip_pid cs)"

text \<open>The lines of a text, split at line breaks.\<close>

definition split_lines :: "string \<Rightarrow> string list" where
  "split_lines s =
     foldr (\<lambda>c ls. if c = newline then [] # ls
                    else (case ls of [] \<Rightarrow> [[c]] | l # rest \<Rightarrow> (c # l) # rest)) s []"

definition unlines :: "string list \<Rightarrow> string" where
  "unlines ls = concat (map (\<lambda>l. l @ [newline]) ls)"

section \<open>The banner and the closing lines of a runner\<close>

definition banner :: "string \<Rightarrow> effect list" where
  "banner title =
     [py_print (str_times CHR ''='' 50), py_print title, py_print (str_times CHR ''='' 50)]"

text \<open>
  \<open>fmt2\<close> stands for the format specification \<open>.2f\<close> of a float; the elapsed time is
  what the two readings of \<open>time.time()\<close> differ by.
\<close>

text \<open>
  A script, or a part of one, gives the trace of the effects it had and the exception that
  ended it, if one did.
\<close>

definition closing ::
  "(real \<Rightarrow> string) \<Rightarrow> real \<Rightarrow> string list \<Rightarrow> effect list \<times> py_error option" where
  "closing fmt2 elapsed tips =
     (case py_str (int (length numbers)) of
        Inl e \<Rightarrow>
          ([py_print (newline # ''[TIME] Total Time: '' @ fmt2 elapsed @ '' seconds'')], Some e)
      | Inr items \<Rightarrow>
          ([py_print (newline # ''[TIME] Total Time: '' @ fmt2 elapsed @ '' seconds''),
            py_print (''[INFO] Items processed: '' @ items)]
           @ map py_print tips, None))"

text \<open>Running one part of a script after another: an exception ends the script.\<close>

definition and_then ::
  "effect list \<times> py_error option \<Rightarrow> effect list \<times> py_error option
     \<Rightarrow> effect list \<times> py_error option" where
  "and_then first second =
     (case first of
        (tr, Some e) \<Rightarrow> (tr, Some e)
      | (tr, None) \<Rightarrow> (case second of (tr', err) \<Rightarrow> (tr @ tr', err)))"

section \<open>Strategy 1: sequential\<close>

text \<open>
  The loop of \<open>01_sequential.py\<close>: call, append, print. A call that raises ends the loop
  and the script.
\<close>

fun sequential_loop ::
  "int list \<Rightarrow> string list \<times> effect list \<Rightarrow> effect list \<times> (py_error + string list)" where
  "sequential_loop [] (results, tr) = (tr, Inr results)"
| "sequential_loop (num # rest) (results, tr) =
     (case square_number num of
        (es, Inl e) \<Rightarrow> (tr @ es, Inl e)
      | (es, Inr result) \<Rightarrow>
          sequential_loop rest (results @ [result], tr @ es @ [py_print result]))"

definition sequential_results :: "py_error + string list" where
  "sequential_results = snd (sequential_loop numbers ([], []))"

definition sequential_main :: "(real \<Rightarrow> string) \<Rightarrow> real \<Rightarrow> effect list \<times> py_error option" where
  "sequential_main fmt2 elapsed =
     (case sequential_loop numbers ([], banner ''APPROACH 1: Sequential (No Parallelism)'') of
        (tr, Inl e) \<Rightarrow> (tr, Some e)
      | (tr, Inr results) \<Rightarrow>
          and_then (tr, None)
            (closing fmt2 elapsed [''[TIP]  Each item waited 2 sec, all ran one-by-one'']))"

section \<open>The executor's map\<close>

text \<open>
  \<open>Executor.map(fn, xs)\<close> of \<open>concurrent.futures\<close> submits one task per element, which
  gives one future per element in the order of \<open>xs\<close>, and yields the futures' results in
  that order. The workers complete the tasks in an order the caller does not control: the
  schedule lists the completions, each with the index of the task and the context it ran
  in (the worker). A task whose function does not return leaves its future pending, and
  reading the results then never returns (\<open>None\<close>). A task whose function raises completes
  its future with the exception: the result type \<open>'b\<close> is then a sum, and the exception is
  raised again when the result is read.
\<close>

fun run_tasks ::
  "('w \<Rightarrow> 'a \<Rightarrow> (effect list \<times> 'b) option) \<Rightarrow> 'a list \<Rightarrow> (nat \<times> 'w) list
     \<Rightarrow> effect list \<times> 'b option list \<Rightarrow> effect list \<times> 'b option list" where
  "run_tasks fn xs [] st = st"
| "run_tasks fn xs ((i, w) # sched) (tr, futures) =
     (if i < length xs then
        (case fn w (xs ! i) of
           None \<Rightarrow> run_tasks fn xs sched (tr, futures)
         | Some (es, r) \<Rightarrow> run_tasks fn xs sched (tr @ es, futures[i := Some r]))
      else run_tasks fn xs sched (tr, futures))"

fun results_of :: "'b option list \<Rightarrow> 'b list option" where
  "results_of [] = Some []"
| "results_of (None # fs) = None"
| "results_of (Some r # fs) = map_option ((#) r) (results_of fs)"

definition executor_map ::
  "('w \<Rightarrow> 'a \<Rightarrow> (effect list \<times> 'b) option) \<Rightarrow> 'a list \<Rightarrow> (nat \<times> 'w) list
     \<Rightarrow> (effect list \<times> 'b list) option" where
  "executor_map fn xs sched =
     (case run_tasks fn xs sched ([], replicate (length xs) None) of
        (tr, futures) \<Rightarrow> map_option (Pair tr) (results_of futures))"

text \<open>
  Leaving the \<open>with\<close> block waits for every submitted task, and a pool hands each task to
  one worker: a schedule of \<open>n\<close> tasks completes each index below \<open>n\<close> exactly once.
\<close>

definition valid_schedule :: "nat \<Rightarrow> (nat \<times> 'w) list \<Rightarrow> bool" where
  "valid_schedule n sched = (sort (map fst sched) = [0..<n])"

section \<open>Strategies 2 and 3: thread pool and process pool\<close>

text \<open>
  What the iterator that \<open>executor.map\<close> returns will yield: for every input number the line,
  or the exception its task ended with.
\<close>

definition pool_results ::
  "(nat \<times> 'w) list \<Rightarrow> (effect list \<times> (py_error + string) list) option" where
  "pool_results sched = executor_map (\<lambda>w number. Some (square_number number)) numbers sched"

text \<open>
  \<open>for result in results: print(result)\<close>: the lines are printed in order, up to the
  first task that raised, whose exception ends the script.
\<close>

fun print_results :: "(py_error + string) list \<Rightarrow> effect list \<times> py_error option" where
  "print_results [] = ([], None)"
| "print_results (Inl e # rest) = ([], Some e)"
| "print_results (Inr result # rest) =
     (case print_results rest of (tr, err) \<Rightarrow> (py_print result # tr, err))"

definition pool_main ::
  "string \<Rightarrow> string \<Rightarrow> (real \<Rightarrow> string) \<Rightarrow> real \<Rightarrow> (nat \<times> 'w) list
     \<Rightarrow> (effect list \<times> py_error option) option" where
  "pool_main title tip fmt2 elapsed sched =
     (case pool_results sched of
        None \<Rightarrow> None
      | Some (tr, results) \<Rightarrow>
          Some (and_then (and_then (banner title @ tr, None) (print_results results))
                  (closing fmt2 elapsed [tip])))"

text \<open>\<open>02_threadpool.py\<close>: \<open>ThreadPoolExecutor(max_workers=14)\<close>.\<close>

definition threadpool_results ::
  "(nat \<times> 'w) list \<Rightarrow> (effect list \<times> (py_error + string) list) option" where
  "threadpool_results sched = pool_results sched"

definition threadpool_main ::
  "(real \<Rightarrow> string) \<Rightarrow> real \<Rightarrow> (nat \<times> 'w) list \<Rightarrow> (effect list \<times> py_error option) option" where
  "threadpool_main fmt2 elapsed sched =
     pool_main ''APPROACH 2: ThreadPoolExecutor (14 threads)''
       ''[TIP]  All 14 threads ran simultaneously, GIL released during sleep'' fmt2 elapsed sched"

text \<open>\<open>03_processpool.py\<close>: \<open>ProcessPoolExecutor(max_workers=3)\<close>.\<close>

definition processpool_results ::
  "(nat \<times> 'w) list \<Rightarrow> (effect list \<times> (py_error + string) list) option" where
  "processpool_results sched = pool_results sched"

definition processpool_main ::
  "(real \<Rightarrow> string) \<Rightarrow> real \<Rightarrow> (nat \<times> 'w) list \<Rightarrow> (effect list \<times> py_error option) option" where
  "processpool_main fmt2 elapsed sched =
     pool_main ''APPROACH 3: ProcessPoolExecutor (3 processes)''
       ''[TIP]  3 processes, ~5 batches of 2 sec each'' fmt2 elapsed sched"

section \<open>Strategy 4: hybrid\<close>

text \<open>\<open>range(start, stop, step)\<close> for non-negative arguments; a zero step raises.\<close>

function range_from :: "nat \<Rightarrow> nat \<Rightarrow> nat \<Rightarrow> nat list" where
  "range_from i stop step =
     (if step = 0 \<or> stop \<le> i then [] else i # range_from (i + step) stop step)"
  by pat_completeness auto
termination
  by (relation "measure (\<lambda>(i, stop, step). stop - i)") auto

declare range_from.simps [simp del]

definition py_range :: "nat \<Rightarrow> nat \<Rightarrow> nat \<Rightarrow> py_error + nat list" where
  "py_range start stop step =
     (if step = 0 then Inl ValueError else Inr (range_from start stop step))"

text \<open>\<open>xs[i:j]\<close> for non-negative \<open>i\<close> and \<open>j\<close>: the slice stops at the end of the list.\<close>

definition slice :: "'a list \<Rightarrow> nat \<Rightarrow> nat \<Rightarrow> 'a list" where
  "slice xs i j = drop i (take j xs)"

definition chunks_of :: "nat \<Rightarrow> 'a list \<Rightarrow> py_error + 'a list list" where
  "chunks_of k xs =
     (case py_range 0 (length xs) k of
        Inl e \<Rightarrow> Inl e
      | Inr starts \<Rightarrow> Inr (map (\<lambda>i. slice xs i (i + k)) starts))"

definition chunk_size :: nat where
  "chunk_size = 5"

text \<open>\<open>ProcessPoolExecutor(max_workers=3)\<close> of \<open>04_hybrid.py\<close>.\<close>

definition max_workers :: nat where
  "max_workers = 3"

definition chunks :: "py_error + int list list" where
  "chunks = chunks_of chunk_size numbers"

text \<open>
  The context a chunk is processed in: the worker process, with its identifier, and the
  schedule of the thread pool that process creates for the chunk.
\<close>

record worker =
  pid :: "32 word"
  threads :: "(nat \<times> nat) list"

text \<open>
  \<open>list(results)\<close> reads the results in order: the list of all of them, or the exception
  of the first task that raised.
\<close>

fun py_list :: "(py_error + 'a) list \<Rightarrow> py_error + 'a list" where
  "py_list [] = Inr []"
| "py_list (Inl e # rest) = Inl e"
| "py_list (Inr x # rest) = (case py_list rest of Inl e \<Rightarrow> Inl e | Inr xs \<Rightarrow> Inr (x # xs))"

definition process_chunk ::
  "worker \<Rightarrow> int list \<Rightarrow> (effect list \<times> (py_error + string list)) option" where
  "process_chunk w chunk =
     map_option (\<lambda>(tr, results). (tr, py_list results))
       (executor_map (\<lambda>t number. Some (square_number_hybrid (pid w) number)) chunk (threads w))"

text \<open>The two nested loops that print the batches.\<close>

definition flatten :: "string list list \<Rightarrow> string list" where
  "flatten all_results = foldl (\<lambda>acc batch. foldl (\<lambda>acc' result. acc' @ [result]) acc batch) [] all_results"

text \<open>
  The results of the hybrid run, flattened in the order the two loops print them, or the
  exception that ended the script before the loops.
\<close>

definition hybrid_results ::
  "(nat \<times> worker) list \<Rightarrow> (effect list \<times> (py_error + string list)) option" where
  "hybrid_results sched =
     (case chunks of
        Inl e \<Rightarrow> Some ([], Inl e)
      | Inr cs \<Rightarrow>
          map_option
            (\<lambda>(tr, batches).
               (tr, (case py_list batches of
                       Inl e \<Rightarrow> Inl e
                     | Inr all_results \<Rightarrow> Inr (flatten all_results))))
            (executor_map process_chunk cs sched))"

text \<open>The multiplication sign of the title is written as its two bytes in UTF-8.\<close>

definition hybrid_title :: string where
  "hybrid_title = ''APPROACH 4: Hybrid (3 Processes '' @ [CHR 0xC3, CHR 0x97] @ '' 3 Threads)''"

definition hybrid_main ::
  "(real \<Rightarrow> string) \<Rightarrow> real \<Rightarrow> (nat \<times> worker) list
     \<Rightarrow> (effect list \<times> py_error option) option" where
  "hybrid_main fmt2 elapsed sched =
     (case hybrid_results sched of
        None \<Rightarrow> None
      | Some (tr, Inl e) \<Rightarrow> Some (banner hybrid_title @ tr, Some e)
      | Some (tr, Inr results) \<Rightarrow>
          Some (and_then (banner hybrid_title @ tr @ map py_print results, None)
                  (closing fmt2 elapsed
                     [''[TIP]  3 processes x 3 threads = 9 parallel workers'',
                      ''[TIP]  Notice different PIDs -- proves separate processes!''])))"

text \<open>
  A schedule of the hybrid run: every chunk completes once, and so does every item of the
  chunk inside the process that took it.
\<close>

definition valid_hybrid_schedule :: "(nat \<times> worker) list \<Rightarrow> bool" where
  "valid_hybrid_schedule sched =
     (case chunks of
        Inl e \<Rightarrow> False
      | Inr cs \<Rightarrow>
          valid_schedule (length cs) sched \<and>
          list_all (\<lambda>(i, w). valid_schedule (length (cs ! i)) (threads w)) sched)"

section \<open>The lines of a runner's output\<close>

text \<open>
  The lines the four runners print: three banner lines, the result lines, an empty line,
  the elapsed time, the number of items, and the closing tips.
\<close>

definition runner_layout :: "string \<Rightarrow> string list \<Rightarrow> string \<Rightarrow> string list \<Rightarrow> string list" where
  "runner_layout title results time_text tips =
     [str_times CHR ''='' 50, title, str_times CHR ''='' 50]
     @ results
     @ [[], ''[TIME] Total Time: '' @ time_text @ '' seconds'', ''[INFO] Items processed: 14'']
     @ tips"

section \<open>Example schedules\<close>

text \<open>
  One completion order for each pool, out of order on purpose: the theorems about the pools
  are applied to them.
\<close>

definition example_thread_schedule :: "(nat \<times> nat) list" where
  "example_thread_schedule =
     [(13, 0), (0, 1), (5, 2), (1, 3), (2, 4), (3, 5), (4, 6), (6, 7), (7, 8), (8, 9),
      (9, 10), (10, 11), (12, 12), (11, 13)]"

definition example_process_schedule :: "(nat \<times> int) list" where
  "example_process_schedule =
     [(1, 4712), (0, 4711), (2, 4713), (4, 4711), (3, 4712), (5, 4713), (6, 4711), (8, 4713),
      (7, 4712), (9, 4711), (10, 4712), (11, 4713), (13, 4712), (12, 4711)]"

definition example_hybrid_schedule :: "(nat \<times> worker) list" where
  "example_hybrid_schedule =
     [(1, \<lparr>pid = 4712, threads = [(2, 0), (0, 1), (1, 2), (4, 0), (3, 1)]\<rparr>),
      (2, \<lparr>pid = 4713, threads = [(0, 0), (1, 1), (2, 2), (3, 0)]\<rparr>),
      (0, \<lparr>pid = 4711, threads = [(1, 1), (0, 0), (2, 2), (3, 1), (4, 0)]\<rparr>)]"

section \<open>The comparison harness\<close>

definition approaches :: "(string \<times> string) list" where
  "approaches =
     [(''01_sequential.py'', ''Sequential (No Parallelism)''),
      (''02_threadpool.py'', ''ThreadPool (14 threads)''),
      (''03_processpool.py'', ''ProcessPool (3 processes)''),
      (''04_hybrid.py'', ''Hybrid (3 proc x 3 threads)'')]"

text \<open>What \<open>subprocess.run\<close> returns with \<open>capture_output=True\<close>.\<close>

record completed_process =
  returncode :: int
  stdout :: string
  stderr :: string

text \<open>
  The loop over the approaches. \<open>launch\<close> stands for the operating system: given the
  script (the harness joins its name to its own directory), it gives the completed process
  and the time that passed between the two readings of \<open>time.time()\<close> around the call.
\<close>

fun harness_loop ::
  "(string \<Rightarrow> completed_process \<times> real) \<Rightarrow> (string \<times> string) list
     \<Rightarrow> (string \<times> real) list \<times> effect list \<Rightarrow> (string \<times> real) list \<times> effect list" where
  "harness_loop launch [] (timings, tr) = (timings, tr)"
| "harness_loop launch ((script, label) # rest) (timings, tr) =
     (case launch script of
        (result, elapsed) \<Rightarrow>
          harness_loop launch rest
            (timings @ [(label, elapsed)],
             tr @ [py_print (newline # str_times CHR ''_'' 60),
                   py_print (''>> Running: '' @ label),
                   py_print (str_times CHR ''_'' 60),
                   Launch script]
                @ (if stdout result \<noteq> [] then [py_print (stdout result)] else [])
                @ (if stderr result \<noteq> [] then [py_print (''Error: '' @ stderr result)] else [])))"

text \<open>\<open>a / b\<close> on floats raises when \<open>b\<close> is zero.\<close>

definition py_truediv :: "real \<Rightarrow> real \<Rightarrow> py_error + real" where
  "py_truediv a b = (if b = 0 then Inl ZeroDivisionError else Inr (a / b))"

text \<open>\<open>timings[0][1] if timings else 1\<close>\<close>

definition sequential_time :: "(string \<times> real) list \<Rightarrow> real" where
  "sequential_time timings = (case timings of [] \<Rightarrow> 1 | t # ts \<Rightarrow> snd t)"

text \<open>\<open>sequential_time / elapsed if elapsed > 0 else 0\<close>\<close>

definition speedup :: "real \<Rightarrow> real \<Rightarrow> py_error + real" where
  "speedup seq_time elapsed = (if elapsed > 0 then py_truediv seq_time elapsed else Inr 0)"

text \<open>
  One row of the table; \<open>fmt2\<close> and \<open>fmt1\<close> stand for the format specifications
  \<open>.2f\<close> and \<open>.1f\<close> of a float.
\<close>

definition table_row ::
  "(real \<Rightarrow> string) \<Rightarrow> (real \<Rightarrow> string) \<Rightarrow> string \<Rightarrow> real \<Rightarrow> real \<Rightarrow> string" where
  "table_row fmt2 fmt1 label elapsed sp =
     ljust 35 label @ '' '' @ rjust 8 (fmt2 elapsed) @ ''s '' @ rjust 8 (fmt1 sp) @ ''x''"

text \<open>The loop that prints the rows; an exception ends it.\<close>

fun table_loop ::
  "(real \<Rightarrow> string) \<Rightarrow> (real \<Rightarrow> string) \<Rightarrow> real \<Rightarrow> (string \<times> real) list \<Rightarrow> effect list
     \<Rightarrow> py_error + effect list" where
  "table_loop fmt2 fmt1 seq_time [] tr = Inr tr"
| "table_loop fmt2 fmt1 seq_time ((label, elapsed) # rest) tr =
     (case speedup seq_time elapsed of
        Inl e \<Rightarrow> Inl e
      | Inr sp \<Rightarrow>
          table_loop fmt2 fmt1 seq_time rest
            (tr @ [py_print (table_row fmt2 fmt1 label elapsed sp)]))"

definition harness_intro :: "effect list" where
  "harness_intro =
     [py_print ''MULTITHREADING & MULTIPROCESSING DRILL'',
      py_print (str_times CHR ''='' 60),
      py_print ''Task: Compute square of 14 numbers, each with 2 sec I/O wait'',
      py_print ''Sequential expected: 14 x 2 = 28 seconds'',
      py_print (str_times CHR ''='' 60)]"

definition table_head :: "effect list" where
  "table_head =
     [py_print (newline # str_times CHR ''='' 60),
      py_print ''FINAL COMPARISON'',
      py_print (str_times CHR ''='' 60),
      py_print (ljust 35 ''Approach'' @ '' '' @ rjust 10 ''Time'' @ '' '' @ rjust 10 ''Speedup''),
      py_print (str_times CHR ''-'' 60)]"

definition table_foot :: "effect list" where
  "table_foot =
     [py_print (str_times CHR ''-'' 60),
      py_print ''[TIP] Higher speedup = faster relative to sequential'',
      py_print ''[WIN] For I/O-bound tasks, ThreadPool is the winner!'']"

definition harness_main ::
  "(string \<Rightarrow> completed_process \<times> real) \<Rightarrow> (real \<Rightarrow> string) \<Rightarrow> (real \<Rightarrow> string)
     \<Rightarrow> py_error + effect list" where
  "harness_main launch fmt2 fmt1 =
     (case harness_loop launch approaches ([], harness_intro) of
        (timings, tr) \<Rightarrow>
          (case table_loop fmt2 fmt1 (sequential_time timings) timings (tr @ table_head) of
             Inl e \<Rightarrow> Inl e
           | Inr tr' \<Rightarrow> Inr (tr' @ table_foot)))"

text \<open>The part of the harness's trace that belongs to one approach.\<close>

definition harness_section :: "(string \<Rightarrow> completed_process \<times> real) \<Rightarrow> string \<times> string \<Rightarrow> effect list" where
  "harness_section launch a =
     snd (harness_loop launch [a] ([], []))"

text \<open>The rows of the table, as the loop prints them when nothing is raised.\<close>

definition table_rows ::
  "(real \<Rightarrow> string) \<Rightarrow> (real \<Rightarrow> string) \<Rightarrow> (string \<times> real) list \<Rightarrow> string list" where
  "table_rows fmt2 fmt1 timings =
     map (\<lambda>(label, elapsed).
            table_row fmt2 fmt1 label elapsed
              (if elapsed > 0 then sequential_time timings / elapsed else 0)) timings"

section \<open>Example runs of the harness\<close>

text \<open>
  An operating system in which the thread-pool script fails with a traceback and exit
  status 1, and the process-pool script is measured with an elapsed time of zero.
\<close>

definition example_launch :: "string \<Rightarrow> completed_process \<times> real" where
  "example_launch script =
     (if script = ''01_sequential.py'' then
        (\<lparr>returncode = 0, stdout = ''ok'' @ [newline], stderr = []\<rparr>, 28)
      else if script = ''02_threadpool.py'' then
        (\<lparr>returncode = 1, stdout = [], stderr = ''Traceback'' @ [newline]\<rparr>, 1 / 2)
      else if script = ''03_processpool.py'' then
        (\<lparr>returncode = 0, stdout = ''ok'' @ [newline], stderr = []\<rparr>, 0)
      else
        (\<lparr>returncode = 0, stdout = ''ok'' @ [newline], stderr = []\<rparr>, 4))"

definition example_timings :: "(string \<times> real) list" where
  "example_timings =
     [(''Sequential (No Parallelism)'', 28), (''ThreadPool (14 threads)'', 2),
      (''ProcessPool (3 processes)'', 0), (''Hybrid (3 proc x 3 threads)'', 4)]"

section \<open>Decimal text reads back as the number it was written from\<close>

lemma lt10_cases:
  "d < (10::nat) \<Longrightarrow> d = 0 \<or> d = 1 \<or> d = 2 \<or> d = 3 \<or> d = 4 \<or> d = 5 \<or> d = 6 \<or> d = 7 \<or> d = 8 \<or> d = 9"
  by arith

lemma digit_val_digit_char: "d < 10 \<Longrightarrow> digit_val (digit_char d) = d"
  using lt10_cases [of d] by (auto simp: digit_val_def digit_char_def)

lemma is_digit_digit_char: "d < 10 \<Longrightarrow> is_digit (digit_char d)"
  using lt10_cases [of d] by (auto simp: is_digit_def digit_char_def)

lemma str_nat_digits: "c \<in> set (str_nat n) \<Longrightarrow> is_digit c"
proof (induction n arbitrary: c rule: str_nat.induct)
  case (1 n)
  show ?case
  proof (cases "n < 10")
    case True
    with "1.prems" show ?thesis
      by (subst (asm) str_nat.simps) (simp add: is_digit_digit_char)
  next
    case False
    with "1.prems" "1.IH" show ?thesis
      by (subst (asm) str_nat.simps) (auto simp: is_digit_digit_char)
  qed
qed

lemma str_nat_not_empty: "str_nat n \<noteq> []"
  by (subst str_nat.simps) simp

lemma digits_val_snoc: "digits_val (ds @ [c]) = 10 * digits_val ds + digit_val c"
  by (simp add: digits_val_def)

lemma digits_val_str_nat: "digits_val (str_nat n) = n"
proof (induction n rule: str_nat.induct)
  case (1 n)
  show ?case
  proof (cases "n < 10")
    case True
    then show ?thesis
      by (subst str_nat.simps) (simp add: digit_val_digit_char digits_val_def)
  next
    case False
    with 1 show ?thesis
      by (subst str_nat.simps) (simp add: digit_val_digit_char digits_val_snoc)
  qed
qed

lemma takeWhile_str_nat:
  assumes "no_digit_ahead rest"
  shows "takeWhile is_digit (str_nat n @ rest) = str_nat n"
    and "dropWhile is_digit (str_nat n @ rest) = rest"
proof -
  have r: "takeWhile is_digit rest = []" "dropWhile is_digit rest = rest"
    using assms by (auto simp: no_digit_ahead_def split: list.splits)
  have a: "\<forall>c \<in> set (str_nat n). is_digit c"
    using str_nat_digits by blast
  show "takeWhile is_digit (str_nat n @ rest) = str_nat n"
    using a r by (simp add: takeWhile_append2)
  show "dropWhile is_digit (str_nat n @ rest) = rest"
    using a r by (simp add: dropWhile_append2)
qed

lemma read_nat_str_nat:
  "no_digit_ahead rest \<Longrightarrow> read_nat (str_nat n @ rest) = Some (n, rest)"
  by (simp add: read_nat_def takeWhile_str_nat str_nat_not_empty digits_val_str_nat)

lemma minus_not_digit: "\<not> is_digit CHR ''-''"
  by (simp add: is_digit_def)

lemma read_int_decimal:
  assumes "no_digit_ahead rest"
  shows "read_int (decimal n @ rest) = Some (n, rest)"
proof (cases "n < 0")
  case True
  then show ?thesis
    using read_nat_str_nat [OF assms, of "nat (- n)"] by (simp add: decimal_def)
next
  case False
  obtain c cs where cs: "str_nat (nat n) = c # cs"
    using str_nat_not_empty [of "nat n"] by (cases "str_nat (nat n)") auto
  then have "is_digit c"
    using str_nat_digits [of c "nat n"] by simp
  then have "c \<noteq> CHR ''-''"
    using minus_not_digit by auto
  moreover have "read_nat ((c # cs) @ rest) = Some (nat n, rest)"
    using read_nat_str_nat [OF assms, of "nat n"] cs by simp
  ultimately show ?thesis
    using False cs by (simp add: decimal_def)
qed

lemma embedded_numbers_line:
  assumes "no_digit_ahead rest"
  shows "embedded_numbers (''Square of '' @ decimal n @ '' = '' @ decimal sq @ rest) = Some (n, sq)"
proof -
  have 1: "expect ''Square of '' (''Square of '' @ decimal n @ '' = '' @ decimal sq @ rest)
             = Some (decimal n @ '' = '' @ decimal sq @ rest)"
    by (simp add: expect_def)
  have 2: "read_int (decimal n @ '' = '' @ decimal sq @ rest) = Some (n, '' = '' @ decimal sq @ rest)"
    by (rule read_int_decimal) (simp add: no_digit_ahead_def is_digit_def)
  have 3: "expect '' = '' ('' = '' @ decimal sq @ rest) = Some (decimal sq @ rest)"
    by (simp add: expect_def)
  have 4: "read_int (decimal sq @ rest) = Some (sq, rest)"
    by (rule read_int_decimal) (rule assms)
  show ?thesis
    unfolding embedded_numbers_def by (simp only: 1 2 3 4 option.case prod.case)
qed

section \<open>The executor's map returns results in the order of its input\<close>

lemma valid_schedule_distinct: "valid_schedule n sched \<Longrightarrow> distinct (map fst sched)"
proof -
  assume "valid_schedule n sched"
  then have "distinct (sort (map fst sched))" by (simp add: valid_schedule_def)
  then show ?thesis by simp
qed

lemma valid_schedule_set: "valid_schedule n sched \<Longrightarrow> set (map fst sched) = {0..<n}"
proof -
  assume "valid_schedule n sched"
  then have "set (sort (map fst sched)) = set [0..<n]" by (simp add: valid_schedule_def)
  then show ?thesis by simp
qed

lemma run_tasks_spec:
  assumes "distinct (map fst sched)"
    and "length futures = length xs"
    and "\<forall>(i, w) \<in> set sched. i < length xs \<and> fn w (xs ! i) \<noteq> None"
  shows "run_tasks fn xs sched (tr, futures) =
           (tr @ concat (map (\<lambda>(i, w). fst (the (fn w (xs ! i)))) sched),
            map (\<lambda>i. case map_of sched i of
                        None \<Rightarrow> futures ! i
                      | Some w \<Rightarrow> map_option snd (fn w (xs ! i))) [0..<length xs])"
  using assms
proof (induction sched arbitrary: tr futures)
  case Nil
  then have "map ((!) futures) [0..<length xs] = futures"
    using map_nth [of futures] by simp
  then show ?case by simp
next
  case (Cons ev sched)
  obtain i w where ev: "ev = (i, w)" by (cases ev)
  from Cons.prems ev have i: "i < length xs" and some: "fn w (xs ! i) \<noteq> None"
    by auto
  then obtain es r where r: "fn w (xs ! i) = Some (es, r)" by auto
  from Cons.prems ev have notin: "i \<notin> fst ` set sched" and d: "distinct (map fst sched)"
    by auto
  then have none: "map_of sched i = None"
    by (simp add: map_of_eq_None_iff)
  have rest: "\<forall>(i, w) \<in> set sched. i < length xs \<and> fn w (xs ! i) \<noteq> None"
    using Cons.prems by auto
  have len: "length (futures[i := Some r]) = length xs"
    using Cons.prems by simp
  have ih: "run_tasks fn xs sched (tr @ es, futures[i := Some r]) =
           ((tr @ es) @ concat (map (\<lambda>(i, w). fst (the (fn w (xs ! i)))) sched),
            map (\<lambda>j. case map_of sched j of
                        None \<Rightarrow> futures[i := Some r] ! j
                      | Some w \<Rightarrow> map_option snd (fn w (xs ! j))) [0..<length xs])"
    by (rule Cons.IH [OF d len rest])
  have m: "map (\<lambda>j. case map_of sched j of
                        None \<Rightarrow> futures[i := Some r] ! j
                      | Some w \<Rightarrow> map_option snd (fn w (xs ! j))) [0..<length xs]
         = map (\<lambda>j. case map_of (ev # sched) j of
                        None \<Rightarrow> futures ! j
                      | Some w \<Rightarrow> map_option snd (fn w (xs ! j))) [0..<length xs]"
  proof (rule map_cong [OF refl])
    fix j assume "j \<in> set [0..<length xs]"
    then have j: "j < length futures" using Cons.prems by simp
    show "(case map_of sched j of None \<Rightarrow> futures[i := Some r] ! j
             | Some w \<Rightarrow> map_option snd (fn w (xs ! j)))
        = (case map_of (ev # sched) j of None \<Rightarrow> futures ! j
             | Some w \<Rightarrow> map_option snd (fn w (xs ! j)))"
    proof (cases "j = i")
      case True
      then show ?thesis using none ev r j by simp
    next
      case False
      then show ?thesis using ev by (simp split: option.splits)
    qed
  qed
  show ?case
    using ih m i r ev by simp
qed

lemma results_of_map_Some: "results_of (map (\<lambda>i. Some (g i)) is) = Some (map g is)"
  by (induction "is") simp_all

lemma valid_schedule_map_of:
  assumes "valid_schedule n sched" and "i < n"
  shows "\<exists>w. map_of sched i = Some w \<and> (i, w) \<in> set sched"
proof -
  have "i \<in> fst ` set sched"
    using valid_schedule_set [OF assms(1)] assms(2) by auto
  then obtain w where "map_of sched i = Some w"
    by (metis map_of_eq_None_iff not_Some_eq)
  then show ?thesis
    by (auto dest: map_of_SomeD)
qed

lemma executor_map_results:
  assumes v: "valid_schedule (length xs) sched"
    and t: "\<forall>(i, w) \<in> set sched. fn w (xs ! i) \<noteq> None"
  shows "executor_map fn xs sched =
           Some (concat (map (\<lambda>(i, w). fst (the (fn w (xs ! i)))) sched),
                 map (\<lambda>i. snd (the (fn (the (map_of sched i)) (xs ! i)))) [0..<length xs])"
proof -
  have d: "distinct (map fst sched)" by (rule valid_schedule_distinct [OF v])
  have b: "\<forall>(i, w) \<in> set sched. i < length xs \<and> fn w (xs ! i) \<noteq> None"
  proof -
    have "\<And>i w. (i, w) \<in> set sched \<Longrightarrow> i < length xs"
    proof -
      fix i w assume "(i, w) \<in> set sched"
      then have "i \<in> set (map fst sched)" by force
      then show "i < length xs" using valid_schedule_set [OF v] by simp
    qed
    then show ?thesis using t by auto
  qed
  have run: "run_tasks fn xs sched ([], replicate (length xs) None) =
           ([] @ concat (map (\<lambda>(i, w). fst (the (fn w (xs ! i)))) sched),
            map (\<lambda>i. case map_of sched i of
                        None \<Rightarrow> replicate (length xs) None ! i
                      | Some w \<Rightarrow> map_option snd (fn w (xs ! i))) [0..<length xs])"
    by (rule run_tasks_spec [OF d _ b]) simp
  have fut: "map (\<lambda>i. case map_of sched i of
                        None \<Rightarrow> replicate (length xs) None ! i
                      | Some w \<Rightarrow> map_option snd (fn w (xs ! i))) [0..<length xs]
           = map (\<lambda>i. Some (snd (the (fn (the (map_of sched i)) (xs ! i))))) [0..<length xs]"
  proof (rule map_cong [OF refl])
    fix i assume "i \<in> set [0..<length xs]"
    then have "i < length xs" by simp
    then obtain w where w: "map_of sched i = Some w" "(i, w) \<in> set sched"
      using valid_schedule_map_of [OF v] by blast
    then have "fn w (xs ! i) \<noteq> None" using t by auto
    then show "(case map_of sched i of None \<Rightarrow> replicate (length xs) None ! i
                 | Some w \<Rightarrow> map_option snd (fn w (xs ! i)))
             = Some (snd (the (fn (the (map_of sched i)) (xs ! i))))"
      using w by auto
  qed
  show ?thesis
    unfolding executor_map_def run fut by (simp add: results_of_map_Some)
qed

lemma executor_map_order:
  assumes v: "valid_schedule (length xs) sched"
  shows "executor_map (\<lambda>w x. Some (f x)) xs sched =
           Some (concat (map (\<lambda>(i, w). fst (f (xs ! i))) sched), map (\<lambda>x. snd (f x)) xs)"
proof -
  have "executor_map (\<lambda>w x. Some (f x)) xs sched =
           Some (concat (map (\<lambda>(i, w). fst (the (Some (f (xs ! i))))) sched),
                 map (\<lambda>i. snd (the (Some (f (xs ! i))))) [0..<length xs])"
    by (rule executor_map_results [OF v]) simp
  moreover have "map (\<lambda>i. snd (f (xs ! i))) [0..<length xs] = map (\<lambda>x. snd (f x)) xs"
    by (rule nth_equalityI) simp_all
  ultimately show ?thesis by simp
qed

section \<open>The limit on the conversion of integers\<close>

lemma str_nat_length_le: "0 < k \<Longrightarrow> (length (str_nat m) \<le> k) = (m < 10 ^ k)"
proof (induction m arbitrary: k rule: str_nat.induct)
  case (1 n)
  show ?case
  proof (cases "n < 10")
    case True
    have "(10::nat) ^ 1 \<le> 10 ^ k"
      using "1.prems" by (intro power_increasing) simp_all
    then have "n < 10 ^ k" using True by simp
    moreover have "length (str_nat n) = 1"
      using True by (subst str_nat.simps) simp
    ultimately show ?thesis using "1.prems" by simp
  next
    case False
    have len: "length (str_nat n) = Suc (length (str_nat (n div 10)))"
      using False by (subst str_nat.simps) simp
    show ?thesis
    proof (cases k)
      case 0
      then show ?thesis using "1.prems" by simp
    next
      case (Suc j)
      show ?thesis
      proof (cases "j = 0")
        case True
        have "length (str_nat (n div 10)) \<noteq> 0"
          using str_nat_not_empty by simp
        then show ?thesis using True Suc False len by simp
      next
        case j: False
        have "(length (str_nat (n div 10)) \<le> j) = (n div 10 < 10 ^ j)"
          using "1.IH" [OF False, of j] j by simp
        also have "\<dots> = (n < 10 ^ j * 10)"
          by (simp add: div_less_iff_less_mult)
        finally show ?thesis using Suc len by (simp add: mult.commute)
      qed
    qed
  qed
qed

lemma digits_mono:
  assumes "\<bar>a\<bar> \<le> \<bar>b\<bar>"
  shows "digits a \<le> digits b"
proof -
  have pos: "0 < digits b"
    using str_nat_not_empty by (simp add: digits_def)
  have "nat \<bar>b\<bar> < 10 ^ digits b"
    using str_nat_length_le [OF pos, of "nat \<bar>b\<bar>"] by (simp add: digits_def)
  moreover have "nat \<bar>a\<bar> \<le> nat \<bar>b\<bar>"
    using assms by simp
  ultimately have "nat \<bar>a\<bar> < 10 ^ digits b"
    by (rule le_less_trans [rotated])
  then show ?thesis
    using str_nat_length_le [OF pos, of "nat \<bar>a\<bar>"] by (simp add: digits_def)
qed

lemma digits_square: "digits n \<le> digits (n * n)"
proof (rule digits_mono)
  show "\<bar>n\<bar> \<le> \<bar>n * n\<bar>"
  proof (cases "n = 0")
    case True
    then show ?thesis by simp
  next
    case False
    then have "1 \<le> \<bar>n\<bar>" by simp
    then have "\<bar>n\<bar> * 1 \<le> \<bar>n\<bar> * \<bar>n\<bar>"
      by (intro mult_left_mono) simp_all
    then show ?thesis by (simp add: abs_mult)
  qed
qed

lemma py_str_ok: "digits i \<le> int_max_str_digits \<Longrightarrow> py_str i = Inr (decimal i)"
  by (simp add: py_str_def)

lemma py_str_raises: "int_max_str_digits < digits i \<Longrightarrow> py_str i = Inl ValueError"
  by (simp add: py_str_def)

lemma digits_pid: "digits (uint (p :: 32 word)) \<le> int_max_str_digits"
proof -
  have "unat p < 2 ^ 32"
    using unsigned_less [of p, where ?'a = nat] by simp
  then have "nat \<bar>uint p\<bar> < 10 ^ 10"
    by simp
  then have "digits (uint p) \<le> 10"
    using str_nat_length_le [of 10 "nat \<bar>uint p\<bar>"] by (simp add: digits_def)
  then show ?thesis
    by (simp add: int_max_str_digits_def)
qed

lemma square_number_ok:
  assumes "digits (n * n) \<le> int_max_str_digits"
  shows "square_number n = ([Sleep 2], Inr (''Square of '' @ decimal n @ '' = '' @ decimal (n * n)))"
proof -
  have "digits n \<le> int_max_str_digits"
    using digits_square [of n] assms by simp
  then show ?thesis
    using assms by (simp add: square_number_def py_str_ok)
qed

lemma square_number_hybrid_ok:
  assumes "digits (n * n) \<le> int_max_str_digits"
  shows "square_number_hybrid p n =
           ([Sleep 2], Inr (''Square of '' @ decimal n @ '' = '' @ decimal (n * n)
                            @ '' (PID: '' @ decimal (uint p) @ '')''))"
proof -
  have "digits n \<le> int_max_str_digits"
    using digits_square [of n] assms by simp
  then show ?thesis
    using assms by (simp add: square_number_hybrid_def py_str_ok digits_pid)
qed

lemma square_number_raises:
  assumes "int_max_str_digits < digits (n * n)"
  shows "square_number n = ([Sleep 2], Inl ValueError)"
    and "square_number_hybrid p n = ([Sleep 2], Inl ValueError)"
proof -
  have e: "py_str (n * n) = Inl ValueError"
    by (rule py_str_raises [OF assms])
  have c: "py_str n = Inl ValueError \<or> py_str n = Inr (decimal n)"
    by (simp add: py_str_def)
  show "square_number n = ([Sleep 2], Inl ValueError)"
    using c e by (auto simp: square_number_def)
  show "square_number_hybrid p n = ([Sleep 2], Inl ValueError)"
    using c e by (auto simp: square_number_hybrid_def)
qed

lemma str_nat_power10: "length (str_nat (10 ^ k)) = Suc k"
proof (induction k)
  case 0
  show ?case by (subst str_nat.simps) simp
next
  case (Suc k)
  have "\<not> (10::nat) ^ Suc k < 10" by simp
  moreover have "(10::nat) ^ Suc k div 10 = 10 ^ k" by simp
  ultimately have "str_nat (10 ^ Suc k) = str_nat (10 ^ k) @ [digit_char ((10 ^ Suc k) mod 10)]"
    by (subst str_nat.simps) (simp only: if_False)
  then show ?case using Suc by simp
qed

lemma digits_power10_square: "digits ((10::int) ^ k * 10 ^ k) = Suc (k + k)"
proof -
  have "nat \<bar>(10::int) ^ k * 10 ^ k\<bar> = 10 ^ (k + k)"
    by (simp add: power_add nat_mult_distrib nat_power_eq)
  then show ?thesis
    by (simp only: digits_def str_nat_power10)
qed

lemma small_digits: "\<bar>i\<bar> < 1000 \<Longrightarrow> digits i \<le> int_max_str_digits"
proof -
  assume "\<bar>i\<bar> < 1000"
  then have "nat \<bar>i\<bar> < 10 ^ 3" by simp
  then have "digits i \<le> 3"
    using str_nat_length_le [of 3 "nat \<bar>i\<bar>"] by (simp add: digits_def)
  then show ?thesis by (simp add: int_max_str_digits_def)
qed

lemma digits_square_le: "0 < k \<Longrightarrow> (digits (n * n) \<le> k + k) = (\<bar>n\<bar> < 10 ^ k)"
proof -
  assume k: "0 < k"
  have "(digits (n * n) \<le> k + k) = (nat \<bar>n * n\<bar> < 10 ^ (k + k))"
    using str_nat_length_le [of "k + k" "nat \<bar>n * n\<bar>"] k by (simp add: digits_def)
  also have "\<dots> = (\<bar>n\<bar> * \<bar>n\<bar> < 10 ^ k * 10 ^ k)"
    by (simp add: abs_mult power_add nat_less_iff)
  also have "\<dots> = (\<bar>n\<bar> < 10 ^ k)"
  proof
    assume lt: "\<bar>n\<bar> * \<bar>n\<bar> < 10 ^ k * 10 ^ k"
    show "\<bar>n\<bar> < 10 ^ k"
    proof (rule ccontr)
      assume "\<not> \<bar>n\<bar> < 10 ^ k"
      then have "10 ^ k \<le> \<bar>n\<bar>" by simp
      then have "(10::int) ^ k * 10 ^ k \<le> \<bar>n\<bar> * \<bar>n\<bar>"
        by (intro mult_mono) simp_all
      with lt show False by simp
    qed
  next
    assume "\<bar>n\<bar> < 10 ^ k"
    then show "\<bar>n\<bar> * \<bar>n\<bar> < 10 ^ k * 10 ^ k"
      by (intro mult_strict_mono') simp_all
  qed
  finally show ?thesis .
qed

section \<open>What the four strategies return\<close>

lemma numbers_small: "n \<in> set numbers \<Longrightarrow> digits (n * n) \<le> int_max_str_digits"
  by (rule small_digits) (auto simp: numbers_def)

lemma square_number_line:
  "digits (n * n) \<le> int_max_str_digits \<Longrightarrow> square_number n = ([Sleep 2], Inr (line_of n))"
  by (simp add: square_number_ok line_of_def)

lemma square_number_hybrid_line:
  "digits (n * n) \<le> int_max_str_digits \<Longrightarrow>
     square_number_hybrid p n = ([Sleep 2], Inr (line_of_hybrid p n))"
  by (simp add: square_number_hybrid_ok line_of_hybrid_def line_of_def)

lemma outcomes_numbers:
  "map (\<lambda>n. snd (square_number n)) numbers = map Inr (map line_of numbers)"
  by (simp add: square_number_line numbers_small)

lemma sequential_loop_spec:
  assumes "\<forall>n \<in> set ns. digits (n * n) \<le> int_max_str_digits"
  shows "sequential_loop ns (results, tr) =
           (tr @ concat (map (\<lambda>n. [Sleep 2, py_print (line_of n)]) ns),
            Inr (results @ map line_of ns))"
  using assms
  by (induction ns arbitrary: results tr) (simp_all add: square_number_line)

lemma sequential_results_eq: "sequential_results = Inr (map line_of numbers)"
  by (simp add: sequential_results_def sequential_loop_spec numbers_small)

lemma pool_results_eq:
  assumes "valid_schedule (length numbers) sched"
  shows "pool_results sched =
           Some (concat (map (\<lambda>(i, w). fst (square_number (numbers ! i))) sched),
                 map (\<lambda>n. snd (square_number n)) numbers)"
  unfolding pool_results_def by (rule executor_map_order [OF assms])

lemma slice_append_drop: "slice xs i (i + k) @ drop (i + k) xs = drop i xs"
proof -
  have "slice xs i (i + k) = take k (drop i xs)"
    by (simp add: slice_def drop_take)
  moreover have "take k (drop i xs) @ drop k (drop i xs) = drop i xs"
    by (rule append_take_drop_id)
  ultimately show ?thesis by (simp add: add.commute)
qed

lemma concat_slices:
  "0 < k \<Longrightarrow> concat (map (\<lambda>i. slice xs i (i + k)) (range_from i (length xs) k)) = drop i xs"
proof (induction i "length xs" k rule: range_from.induct)
  case (1 i step)
  show ?case
  proof (cases "length xs \<le> i")
    case True
    then show ?thesis by (subst range_from.simps) simp
  next
    case False
    with 1 have "concat (map (\<lambda>i. slice xs i (i + step)) (range_from (i + step) (length xs) step))
                   = drop (i + step) xs"
      by simp
    with False 1 show ?thesis
      by (subst range_from.simps) (simp add: slice_append_drop)
  qed
qed

lemma chunks_of_concat:
  "0 < k \<Longrightarrow> \<exists>cs. chunks_of k xs = Inr cs \<and> concat cs = xs"
  using concat_slices [of k xs 0] by (simp add: chunks_of_def py_range_def)

lemma chunks_value:
  "chunks = Inr [[1, 2, 3, 4, 5], [6, 7, 8, 9, 10], [11, 12, 13, 14]]"
  by (simp add: chunks_def chunks_of_def py_range_def chunk_size_def numbers_def
      range_from.simps slice_def)

lemma flatten_concat: "flatten all_results = concat all_results"
proof -
  have inner: "foldl (\<lambda>acc' result. acc' @ [result]) acc batch = acc @ batch"
    for acc batch :: "string list"
    by (induction batch arbitrary: acc) simp_all
  have "foldl (\<lambda>acc batch. foldl (\<lambda>acc' result. acc' @ [result]) acc batch) acc all_results
          = acc @ concat all_results" for acc
    by (induction all_results arbitrary: acc) (simp_all add: inner)
  then show ?thesis by (simp add: flatten_def)
qed

lemma py_list_Inr: "py_list (map Inr xs) = Inr xs"
  by (induction xs) simp_all

lemma process_chunk_eq:
  assumes "valid_schedule (length chunk) (threads w)"
    and "\<forall>n \<in> set chunk. digits (n * n) \<le> int_max_str_digits"
  shows "process_chunk w chunk =
           Some (concat (map (\<lambda>(i, t). fst (square_number_hybrid (pid w) (chunk ! i))) (threads w)),
                 Inr (map (line_of_hybrid (pid w)) chunk))"
proof -
  have "map (\<lambda>n. snd (square_number_hybrid (pid w) n)) chunk
          = map Inr (map (line_of_hybrid (pid w)) chunk)"
    using assms(2) by (simp add: square_number_hybrid_line)
  then have "py_list (map (\<lambda>n. snd (square_number_hybrid (pid w) n)) chunk)
          = Inr (map (line_of_hybrid (pid w)) chunk)"
    by (simp only: py_list_Inr)
  then show ?thesis
    unfolding process_chunk_def
    by (simp add: executor_map_order [OF assms(1)])
qed

lemma valid_schedule_index: "valid_schedule n sched \<Longrightarrow> (i, w) \<in> set sched \<Longrightarrow> i < n"
proof -
  assume v: "valid_schedule n sched" and m: "(i, w) \<in> set sched"
  from m have "i \<in> set (map fst sched)" by force
  then show "i < n" using valid_schedule_set [OF v] by simp
qed

lemma hybrid_results_value:
  assumes "valid_hybrid_schedule sched"
  shows "\<exists>tr w0 w1 w2.
           map_of sched 0 = Some w0 \<and> map_of sched 1 = Some w1 \<and> map_of sched 2 = Some w2 \<and>
           hybrid_results sched =
             Some (tr, Inr (map (line_of_hybrid (pid w0)) [1, 2, 3, 4, 5]
                            @ map (line_of_hybrid (pid w1)) [6, 7, 8, 9, 10]
                            @ map (line_of_hybrid (pid w2)) [11, 12, 13, 14]))"
proof -
  define cs :: "int list list" where "cs = [[1, 2, 3, 4, 5], [6, 7, 8, 9, 10], [11, 12, 13, 14]]"
  have ch: "chunks = Inr cs" by (simp add: cs_def chunks_value)
  have len: "length cs = 3" by (simp add: cs_def)
  from assms have v: "valid_schedule (length cs) sched"
    and la: "list_all (\<lambda>(i, w). valid_schedule (length (cs ! i)) (threads w)) sched"
    unfolding valid_hybrid_schedule_def ch by simp_all
  have vt: "valid_schedule (length (cs ! i)) (threads w)" if "(i, w) \<in> set sched" for i w
    using la that by (auto simp: list_all_iff)
  have sm: "\<forall>n \<in> set (cs ! i). digits (n * n) \<le> int_max_str_digits" if "i < length cs" for i
  proof -
    have "set (cs ! i) \<subseteq> set numbers"
      using that nth_mem [OF that] by (auto simp: cs_def numbers_def)
    then show ?thesis using numbers_small by blast
  qed
  have pc: "process_chunk w (cs ! i) =
              Some (concat (map (\<lambda>(j, t). fst (square_number_hybrid (pid w) (cs ! i ! j))) (threads w)),
                    Inr (map (line_of_hybrid (pid w)) (cs ! i)))"
    if "(i, w) \<in> set sched" for i w
    by (rule process_chunk_eq [OF vt [OF that] sm [OF valid_schedule_index [OF v that]]])
  have ok: "\<forall>(i, w) \<in> set sched. process_chunk w (cs ! i) \<noteq> None"
    using pc by auto
  obtain w0 where w0: "map_of sched 0 = Some w0" "(0, w0) \<in> set sched"
    using valid_schedule_map_of [OF v, of 0] len by auto
  obtain w1 where w1: "map_of sched 1 = Some w1" "(1, w1) \<in> set sched"
    using valid_schedule_map_of [OF v, of 1] len by auto
  obtain w2 where w2: "map_of sched 2 = Some w2" "(2, w2) \<in> set sched"
    using valid_schedule_map_of [OF v, of 2] len by auto
  have upt3: "[0..<length cs] = [0, 1, 2]"
    by (simp add: len upt_rec)
  have p0: "snd (the (process_chunk w0 (cs ! 0))) = Inr (map (line_of_hybrid (pid w0)) [1, 2, 3, 4, 5])"
    using pc [OF w0(2)] by (simp add: cs_def)
  have p1: "snd (the (process_chunk w1 (cs ! 1))) = Inr (map (line_of_hybrid (pid w1)) [6, 7, 8, 9, 10])"
    using pc [OF w1(2)] by (simp add: cs_def)
  have p2: "snd (the (process_chunk w2 (cs ! 2))) = Inr (map (line_of_hybrid (pid w2)) [11, 12, 13, 14])"
    using pc [OF w2(2)] by (simp add: cs_def)
  have "executor_map process_chunk cs sched =
          Some (concat (map (\<lambda>(i, w). fst (the (process_chunk w (cs ! i)))) sched),
                map (\<lambda>i. snd (the (process_chunk (the (map_of sched i)) (cs ! i)))) [0..<length cs])"
    by (rule executor_map_results [OF v ok])
  then have "hybrid_results sched =
          Some (concat (map (\<lambda>(i, w). fst (the (process_chunk w (cs ! i)))) sched),
                Inr (concat [map (line_of_hybrid (pid w0)) [1, 2, 3, 4, 5],
                             map (line_of_hybrid (pid w1)) [6, 7, 8, 9, 10],
                             map (line_of_hybrid (pid w2)) [11, 12, 13, 14]]))"
    unfolding hybrid_results_def ch upt3 using w0(1) w1(1) w2(1) p0 p1 p2
    by (simp add: flatten_concat)
  then show ?thesis
    using w0(1) w1(1) w2(1) by simp
qed

section \<open>The results of the four strategies\<close>

lemma embedded_square_line: "embedded_square (line_of n) = Some (n * n)"
proof -
  have "embedded_numbers (''Square of '' @ decimal n @ '' = '' @ decimal (n * n) @ []) = Some (n, n * n)"
    by (rule embedded_numbers_line) (simp add: no_digit_ahead_def)
  then show ?thesis by (simp add: embedded_square_def line_of_def)
qed

lemma embedded_numbers_line_hybrid: "embedded_numbers (line_of_hybrid p n) = Some (n, n * n)"
proof -
  have "embedded_numbers (''Square of '' @ decimal n @ '' = '' @ decimal (n * n)
          @ ('' (PID: '' @ decimal (uint p) @ '')'')) = Some (n, n * n)"
    by (rule embedded_numbers_line) (simp add: no_digit_ahead_def is_digit_def)
  then show ?thesis by (simp add: line_of_hybrid_def line_of_def)
qed

lemma embedded_square_line_hybrid: "embedded_square (line_of_hybrid p n) = Some (n * n)"
  by (simp add: embedded_square_def embedded_numbers_line_hybrid)

lemma each_square_once_squares:
  assumes "length results = 14"
    and "map embedded_square results = map (\<lambda>n. Some (n * n)) numbers"
  shows "each_square_once results"
  unfolding each_square_once_def assms by (simp add: numbers_def)

lemma each_square_once_plain: "each_square_once (map line_of numbers)"
  by (rule each_square_once_squares) (simp_all add: numbers_def embedded_square_line)

lemma each_square_once_hybrid:
  "each_square_once
     (map (line_of_hybrid p0) [1, 2, 3, 4, 5]
      @ map (line_of_hybrid p1) [6, 7, 8, 9, 10]
      @ map (line_of_hybrid p2) [11, 12, 13, 14])"
  by (rule each_square_once_squares) (simp_all add: numbers_def embedded_square_line_hybrid)

lemma pool_results_lines:
  assumes "valid_schedule (length numbers) sched"
  shows "pool_results sched =
           Some (concat (map (\<lambda>(i, w). fst (square_number (numbers ! i))) sched),
                 map Inr (map line_of numbers))"
  using pool_results_eq [OF assms] by (simp only: outcomes_numbers)

text \<open>
  C1: on the input list \<open>[1..14]\<close> each of the four strategies (sequential, thread pool,
  process pool, hybrid) returns one line per input number, and the square of every input
  number is embedded in exactly one of the returned lines, whatever order the pool's
  workers complete the tasks in.
\<close>

theorem every_square_exactly_once:
  assumes "valid_schedule (length numbers) thread_sched"
    and "valid_schedule (length numbers) process_sched"
    and "valid_hybrid_schedule hybrid_sched"
  shows "(\<exists>results. sequential_results = Inr results \<and> each_square_once results)
       \<and> (\<exists>tr results. threadpool_results thread_sched = Some (tr, map Inr results)
              \<and> each_square_once results)
       \<and> (\<exists>tr results. processpool_results process_sched = Some (tr, map Inr results)
              \<and> each_square_once results)
       \<and> (\<exists>tr results. hybrid_results hybrid_sched = Some (tr, Inr results)
              \<and> each_square_once results)"
proof -
  have 1: "\<exists>results. sequential_results = Inr results \<and> each_square_once results"
    by (simp add: sequential_results_eq each_square_once_plain)
  have 2: "\<exists>tr results. threadpool_results thread_sched = Some (tr, map Inr results)
             \<and> each_square_once results"
    unfolding threadpool_results_def pool_results_lines [OF assms(1)]
    using each_square_once_plain by blast
  have 3: "\<exists>tr results. processpool_results process_sched = Some (tr, map Inr results)
             \<and> each_square_once results"
    unfolding processpool_results_def pool_results_lines [OF assms(2)]
    using each_square_once_plain by blast
  have 4: "\<exists>tr results. hybrid_results hybrid_sched = Some (tr, Inr results)
             \<and> each_square_once results"
    using hybrid_results_value [OF assms(3)] each_square_once_hybrid by fastforce
  show ?thesis using 1 2 3 4 by blast
qed

lemma example_thread_schedule_valid: "valid_schedule (length numbers) example_thread_schedule"
  by code_simp

lemma example_process_schedule_valid: "valid_schedule (length numbers) example_process_schedule"
  by code_simp

lemma example_hybrid_schedule_valid: "valid_hybrid_schedule example_hybrid_schedule"
  by code_simp

theorem every_square_exactly_once_witness:
  "valid_schedule (length numbers) example_thread_schedule
   \<and> valid_schedule (length numbers) example_process_schedule
   \<and> valid_hybrid_schedule example_hybrid_schedule
   \<and> (\<exists>results. sequential_results = Inr results \<and> each_square_once results)
   \<and> (\<exists>tr results. threadpool_results example_thread_schedule = Some (tr, map Inr results)
         \<and> each_square_once results)
   \<and> (\<exists>tr results. processpool_results example_process_schedule = Some (tr, map Inr results)
         \<and> each_square_once results)
   \<and> (\<exists>tr results. hybrid_results example_hybrid_schedule = Some (tr, Inr results)
         \<and> each_square_once results)"
  using every_square_exactly_once [OF example_thread_schedule_valid
      example_process_schedule_valid example_hybrid_schedule_valid]
    example_thread_schedule_valid example_process_schedule_valid example_hybrid_schedule_valid
  by simp

text \<open>
  C2: the sequential, thread-pool and process-pool strategies return the result lines in the
  order of the input list, whatever order the workers complete the tasks in: the effects
  of the tasks follow the schedule, the results follow the input.
\<close>

theorem results_in_input_order:
  assumes "valid_schedule (length numbers) thread_sched"
    and "valid_schedule (length numbers) process_sched"
  shows "\<exists>results.
           map Inr results = map (\<lambda>n. snd (square_number n)) numbers
         \<and> sequential_results = Inr results
         \<and> threadpool_results thread_sched =
             Some (concat (map (\<lambda>(i, w). fst (square_number (numbers ! i))) thread_sched),
                   map Inr results)
         \<and> processpool_results process_sched =
             Some (concat (map (\<lambda>(i, w). fst (square_number (numbers ! i))) process_sched),
                   map Inr results)"
  using pool_results_lines [OF assms(1)] pool_results_lines [OF assms(2)]
    sequential_results_eq outcomes_numbers
  unfolding threadpool_results_def processpool_results_def
  by metis

theorem results_in_input_order_witness:
  "valid_schedule (length numbers) example_thread_schedule
   \<and> valid_schedule (length numbers) example_process_schedule
   \<and> (\<exists>results.
           map Inr results = map (\<lambda>n. snd (square_number n)) numbers
         \<and> sequential_results = Inr results
         \<and> threadpool_results example_thread_schedule =
             Some (concat (map (\<lambda>(i, w). fst (square_number (numbers ! i))) example_thread_schedule),
                   map Inr results)
         \<and> processpool_results example_process_schedule =
             Some (concat (map (\<lambda>(i, w). fst (square_number (numbers ! i))) example_process_schedule),
                   map Inr results))"
  using results_in_input_order [OF example_thread_schedule_valid example_process_schedule_valid]
    example_thread_schedule_valid example_process_schedule_valid
  by simp

text \<open>
  C3: the flattened result list of the hybrid strategy is the concatenation, in the order of
  the chunk indices, of one group per chunk, and the group of a chunk holds the lines of
  that chunk's numbers in the chunk's order, each with the identifier of the process the
  chunk ran in.
\<close>

theorem hybrid_grouped_by_chunk:
  assumes "valid_hybrid_schedule sched"
  shows "\<exists>tr cs ws results.
           chunks = Inr cs \<and> length ws = length cs
           \<and> (\<forall>i < length cs. map_of sched i = Some (ws ! i))
           \<and> hybrid_results sched = Some (tr, Inr results)
           \<and> map Inr results =
               concat (map (\<lambda>i. map (\<lambda>n. snd (square_number_hybrid (pid (ws ! i)) n)) (cs ! i))
                         [0..<length cs])"
proof -
  obtain tr and w0 w1 w2 :: worker where
    w: "map_of sched 0 = Some w0" "map_of sched 1 = Some w1" "map_of sched 2 = Some w2"
    and r: "hybrid_results sched =
             Some (tr, Inr (map (line_of_hybrid (pid w0)) [1, 2, 3, 4, 5]
                            @ map (line_of_hybrid (pid w1)) [6, 7, 8, 9, 10]
                            @ map (line_of_hybrid (pid w2)) [11, 12, 13, 14]))"
    using hybrid_results_value [OF assms] by blast
  define cs :: "int list list" where "cs = [[1, 2, 3, 4, 5], [6, 7, 8, 9, 10], [11, 12, 13, 14]]"
  define ws where "ws = [w0, w1, w2]"
  define results where
    "results = map (line_of_hybrid (pid w0)) [1, 2, 3, 4, 5]
               @ map (line_of_hybrid (pid w1)) [6, 7, 8, 9, 10]
               @ map (line_of_hybrid (pid w2)) [11, 12, 13, 14]"
  have upt3: "[0..<length cs] = [0, 1, 2]"
    by (simp add: cs_def upt_rec)
  have a: "chunks = Inr cs" by (simp add: cs_def chunks_value)
  have b: "length ws = length cs" by (simp add: ws_def cs_def)
  have c: "\<forall>i < length cs. map_of sched i = Some (ws ! i)"
  proof (intro allI impI)
    fix i assume "i < length cs"
    then have "i = 0 \<or> i = 1 \<or> i = 2" by (auto simp: cs_def)
    then show "map_of sched i = Some (ws ! i)" using w by (auto simp: ws_def)
  qed
  have d: "hybrid_results sched = Some (tr, Inr results)"
    unfolding results_def by (rule r)
  have l: "snd (square_number_hybrid p n) = Inr (line_of_hybrid p n)" if "n \<in> set numbers" for p n
    using square_number_hybrid_line [OF numbers_small [OF that]] by simp
  have e: "map Inr results =
               concat (map (\<lambda>i. map (\<lambda>n. snd (square_number_hybrid (pid (ws ! i)) n)) (cs ! i))
                         [0..<length cs])"
    unfolding upt3 by (simp add: results_def cs_def ws_def l numbers_def)
  show ?thesis using a b c d e by blast
qed

theorem hybrid_grouped_by_chunk_witness:
  "valid_hybrid_schedule example_hybrid_schedule
   \<and> (\<exists>tr cs ws results.
           chunks = Inr cs \<and> length ws = length cs
           \<and> (\<forall>i < length cs. map_of example_hybrid_schedule i = Some (ws ! i))
           \<and> hybrid_results example_hybrid_schedule = Some (tr, Inr results)
           \<and> map Inr results =
               concat (map (\<lambda>i. map (\<lambda>n. snd (square_number_hybrid (pid (ws ! i)) n)) (cs ! i))
                         [0..<length cs]))"
  using hybrid_grouped_by_chunk [OF example_hybrid_schedule_valid] example_hybrid_schedule_valid
  by simp

text \<open>
  C4: the chunk size of the hybrid strategy is 5, which is the ceiling of 14 / 3; the
  partition is a function of the input alone and gives the contiguous chunks
  \<open>numbers[0:5]\<close>, \<open>numbers[5:10]\<close>, \<open>numbers[10:14]\<close> of sizes 5, 5 and 4, which are
  disjoint and whose concatenation in order is the input list.
\<close>

theorem hybrid_partition:
  "chunk_size = nat \<lceil>real (length numbers) / real max_workers\<rceil>
   \<and> chunk_size = 5
   \<and> chunks = Inr [[1, 2, 3, 4, 5], [6, 7, 8, 9, 10], [11, 12, 13, 14]]
   \<and> (case chunks of
        Inl e \<Rightarrow> False
      | Inr cs \<Rightarrow>
          map length cs = [5, 5, 4]
          \<and> cs = [slice numbers 0 5, slice numbers 5 10, slice numbers 10 14]
          \<and> concat cs = numbers
          \<and> distinct (concat cs))"
proof -
  have "chunk_size = nat \<lceil>real (length numbers) / real max_workers\<rceil>"
    by (simp add: chunk_size_def numbers_def max_workers_def)
  moreover have "chunk_size = 5" by (simp add: chunk_size_def)
  moreover have "[slice numbers 0 5, slice numbers 5 10, slice numbers 10 14]
                   = [[1, 2, 3, 4, 5], [6, 7, 8, 9, 10], [11, 12, 13, 14]]"
    by (simp add: slice_def numbers_def)
  moreover have "concat [[1, 2, 3, 4, 5], [6, 7, 8, 9, 10], [11, 12, 13, 14]] = numbers"
    by (simp add: numbers_def)
  moreover have "distinct numbers" by (simp add: numbers_def)
  ultimately show ?thesis by (simp add: chunks_value)
qed

lemma strip_pid_suffix:
  assumes "CHR ''('' \<notin> set s"
  shows "strip_pid (s @ '' (PID: '' @ t @ '')'') = s"
  using assms
proof (induction s)
  case Nil
  have "suffix '')'' ('' (PID: '' @ t @ '')'')"
    by (simp add: suffix_def)
  then show ?case by simp
next
  case (Cons c cs)
  have np: "\<not> prefix ''(PID: '' (cs @ '' (PID: '' @ t @ '')'')"
  proof (cases cs)
    case Nil
    then show ?thesis by simp
  next
    case (Cons d ds)
    with Cons.prems show ?thesis by auto
  qed
  have "strip_pid (c # (cs @ '' (PID: '' @ t @ '')''))
               = c # strip_pid (cs @ '' (PID: '' @ t @ '')'')"
    using np by (simp del: append.simps)
  moreover have "strip_pid (cs @ '' (PID: '' @ t @ '')'') = cs"
    using Cons by simp
  ultimately show ?case by simp
qed

lemma decimal_no_paren: "CHR ''('' \<notin> set (decimal i)"
proof -
  have "\<not> is_digit CHR ''(''" by (simp add: is_digit_def)
  then have "CHR ''('' \<notin> set (str_nat n)" for n
    using str_nat_digits by blast
  then show ?thesis by (simp add: decimal_def)
qed

lemma strip_pid_line: "strip_pid (line_of_hybrid p n) = line_of n"
proof -
  have "CHR ''('' \<notin> set (line_of n)"
    using decimal_no_paren by (simp add: line_of_def)
  then have "strip_pid (line_of n @ '' (PID: '' @ decimal (uint p) @ '')'') = line_of n"
    by (rule strip_pid_suffix)
  then show ?thesis by (simp add: line_of_hybrid_def)
qed

text \<open>
  C10: the thread-pool and the process-pool strategy return exactly the list the sequential
  strategy returns, and so does the hybrid strategy once the \<open> (PID: ...)\<close> suffix is
  removed from each of its lines: the hybrid output is in the order of the whole input.
\<close>

theorem strategies_same_sequence:
  assumes "valid_schedule (length numbers) thread_sched"
    and "valid_schedule (length numbers) process_sched"
    and "valid_hybrid_schedule hybrid_sched"
  shows "\<exists>tr2 tr3 tr4 lines results.
           sequential_results = Inr lines
           \<and> threadpool_results thread_sched = Some (tr2, map Inr lines)
           \<and> processpool_results process_sched = Some (tr3, map Inr lines)
           \<and> hybrid_results hybrid_sched = Some (tr4, Inr results)
           \<and> map strip_pid results = lines
           \<and> map embedded_numbers results = map (\<lambda>n. Some (n, n * n)) numbers"
proof -
  obtain tr and w0 w1 w2 :: worker where
    r: "hybrid_results hybrid_sched =
             Some (tr, Inr (map (line_of_hybrid (pid w0)) [1, 2, 3, 4, 5]
                            @ map (line_of_hybrid (pid w1)) [6, 7, 8, 9, 10]
                            @ map (line_of_hybrid (pid w2)) [11, 12, 13, 14]))"
    using hybrid_results_value [OF assms(3)] by blast
  have s: "map strip_pid (map (line_of_hybrid (pid w0)) [1, 2, 3, 4, 5]
                          @ map (line_of_hybrid (pid w1)) [6, 7, 8, 9, 10]
                          @ map (line_of_hybrid (pid w2)) [11, 12, 13, 14])
           = map line_of numbers"
    by (simp add: strip_pid_line numbers_def)
  have n: "map embedded_numbers (map (line_of_hybrid (pid w0)) [1, 2, 3, 4, 5]
                          @ map (line_of_hybrid (pid w1)) [6, 7, 8, 9, 10]
                          @ map (line_of_hybrid (pid w2)) [11, 12, 13, 14])
           = map (\<lambda>n. Some (n, n * n)) numbers"
    by (simp add: embedded_numbers_line_hybrid numbers_def)
  have q: "sequential_results = Inr (map line_of numbers)"
    by (rule sequential_results_eq)
  have t: "threadpool_results thread_sched =
             Some (concat (map (\<lambda>(i, w). fst (square_number (numbers ! i))) thread_sched),
                   map Inr (map line_of numbers))"
    unfolding threadpool_results_def by (rule pool_results_lines [OF assms(1)])
  have p: "processpool_results process_sched =
             Some (concat (map (\<lambda>(i, w). fst (square_number (numbers ! i))) process_sched),
                   map Inr (map line_of numbers))"
    unfolding processpool_results_def by (rule pool_results_lines [OF assms(2)])
  show ?thesis using q t p r s n by blast
qed

theorem strategies_same_sequence_witness:
  "valid_schedule (length numbers) example_thread_schedule
   \<and> valid_schedule (length numbers) example_process_schedule
   \<and> valid_hybrid_schedule example_hybrid_schedule
   \<and> (\<exists>tr2 tr3 tr4 lines results.
           sequential_results = Inr lines
           \<and> threadpool_results example_thread_schedule = Some (tr2, map Inr lines)
           \<and> processpool_results example_process_schedule = Some (tr3, map Inr lines)
           \<and> hybrid_results example_hybrid_schedule = Some (tr4, Inr results)
           \<and> map strip_pid results = lines
           \<and> map embedded_numbers results = map (\<lambda>n. Some (n, n * n)) numbers)"
  using strategies_same_sequence [OF example_thread_schedule_valid
      example_process_schedule_valid example_hybrid_schedule_valid]
    example_thread_schedule_valid example_process_schedule_valid example_hybrid_schedule_valid
  by simp

section \<open>The comparison harness: speedup and failure tolerance\<close>

lemma speedup_never_raises:
  "speedup seq_time elapsed = Inr (if elapsed > 0 then seq_time / elapsed else 0)"
  by (simp add: speedup_def py_truediv_def)

lemma table_loop_spec:
  "table_loop fmt2 fmt1 seq_time rows tr =
     Inr (tr @ map (\<lambda>(label, elapsed).
                      py_print (table_row fmt2 fmt1 label elapsed
                                  (if elapsed > 0 then seq_time / elapsed else 0))) rows)"
  by (induction rows arbitrary: tr) (auto simp: speedup_never_raises)

lemma table_loop_rows:
  "table_loop fmt2 fmt1 (sequential_time timings) timings tr =
     Inr (tr @ map py_print (table_rows fmt2 fmt1 timings))"
  by (simp add: table_loop_spec table_rows_def case_prod_beta comp_def)

text \<open>
  C6: in the summary table the speedup of a row is the elapsed time of the first
  (sequential) row divided by the row's elapsed time when that is positive, and 0 when it
  is zero; the division never raises, so the loop prints every row; the speedup of the
  sequential row is exactly 1 whenever its elapsed time is positive. Times are real
  numbers here.
\<close>

theorem speedup_guarded:
  assumes "i < length timings"
  shows "speedup (sequential_time timings) (snd (timings ! i)) =
           Inr (if snd (timings ! i) > 0 then snd (timings ! 0) / snd (timings ! i) else 0)
       \<and> (snd (timings ! i) = 0 \<longrightarrow> speedup (sequential_time timings) (snd (timings ! i)) = Inr 0)
       \<and> (snd (timings ! 0) > 0 \<longrightarrow> speedup (sequential_time timings) (snd (timings ! 0)) = Inr 1)
       \<and> table_loop fmt2 fmt1 (sequential_time timings) timings tr =
           Inr (tr @ map py_print (table_rows fmt2 fmt1 timings))"
proof -
  have s: "sequential_time timings = snd (timings ! 0)"
    using assms by (cases timings) (simp_all add: sequential_time_def)
  have t: "table_loop fmt2 fmt1 (sequential_time timings) timings tr =
           Inr (tr @ map py_print (table_rows fmt2 fmt1 timings))"
    by (rule table_loop_rows)
  have r: "speedup (sequential_time timings) e = Inr (if e > 0 then snd (timings ! 0) / e else 0)" for e
    by (simp add: speedup_never_raises s)
  show ?thesis
    using t by (simp add: r)
qed

theorem speedup_guarded_witness:
  "(2::nat) < length example_timings
   \<and> snd (example_timings ! 2) = 0
   \<and> snd (example_timings ! 0) > 0
   \<and> speedup (sequential_time example_timings) (snd (example_timings ! 2)) = Inr 0
   \<and> speedup (sequential_time example_timings) (snd (example_timings ! 1)) = Inr 14
   \<and> speedup (sequential_time example_timings) (snd (example_timings ! 0)) = Inr 1
   \<and> table_loop (\<lambda>t. ''t'') (\<lambda>s. ''s'') (sequential_time example_timings) example_timings [] =
       Inr ([] @ map py_print (table_rows (\<lambda>t. ''t'') (\<lambda>s. ''s'') example_timings))"
proof -
  have h: "(2::nat) < length example_timings" "(1::nat) < length example_timings"
    by (simp_all add: example_timings_def)
  have z: "snd (example_timings ! 2) = 0" "snd (example_timings ! 0) = 28"
    "snd (example_timings ! 1) = 2"
    by (simp_all add: example_timings_def)
  show ?thesis
    using speedup_guarded [OF h(1), of "\<lambda>t. ''t''" "\<lambda>s. ''s''" "[]"]
      speedup_guarded [OF h(2), of "\<lambda>t. ''t''" "\<lambda>s. ''s''" "[]"] h z
    by simp
qed

lemma harness_loop_spec:
  "harness_loop launch as (timings, tr) =
     (timings @ map (\<lambda>(script, label). (label, snd (launch script))) as,
      tr @ concat (map (harness_section launch) as))"
proof (induction as arbitrary: timings tr)
  case Nil
  then show ?case by simp
next
  case (Cons a as)
  obtain script label where a: "a = (script, label)" by (cases a)
  obtain result elapsed where l: "launch script = (result, elapsed)" by (cases "launch script")
  show ?case
    unfolding a by (simp add: l Cons.IH harness_section_def)
qed

lemma harness_section_value:
  "harness_section launch (script, label) =
     [py_print (newline # str_times CHR ''_'' 60),
      py_print (''>> Running: '' @ label),
      py_print (str_times CHR ''_'' 60),
      Launch script]
     @ (if stdout (fst (launch script)) \<noteq> [] then [py_print (stdout (fst (launch script)))] else [])
     @ (if stderr (fst (launch script)) \<noteq> []
        then [py_print (''Error: '' @ stderr (fst (launch script)))] else [])"
  by (cases "launch script") (simp add: harness_section_def)

lemma stdout_of_append: "stdout_of (xs @ ys) = stdout_of xs @ stdout_of ys"
  by (induction xs rule: stdout_of.induct) simp_all

lemma launches_of_append: "launches_of (xs @ ys) = launches_of xs @ launches_of ys"
  by (induction xs rule: launches_of.induct) simp_all

lemma launches_of_prints: "launches_of (map py_print ls) = []"
  by (induction ls) (simp_all add: py_print_def)

lemma launches_of_section: "launches_of (harness_section launch (script, label)) = [script]"
  by (simp add: harness_section_value py_print_def)

lemma stderr_in_section:
  "sublist (stderr (fst (launch script))) (stdout_of (harness_section launch (script, label)))"
proof (cases "stderr (fst (launch script)) = []")
  case True
  then show ?thesis by simp
next
  case False
  have "stdout_of (harness_section launch (script, label)) =
          (stdout_of ([py_print (newline # str_times CHR ''_'' 60),
                       py_print (''>> Running: '' @ label),
                       py_print (str_times CHR ''_'' 60),
                       Launch script]
                      @ (if stdout (fst (launch script)) \<noteq> []
                         then [py_print (stdout (fst (launch script)))] else []))
           @ ''Error: '') @ stderr (fst (launch script)) @ [newline]"
    using False by (simp add: harness_section_value stdout_of_append py_print_def)
  then show ?thesis
    unfolding sublist_def by blast
qed

lemma harness_main_value:
  "harness_main launch fmt2 fmt1 =
     Inr (harness_intro
          @ concat (map (harness_section launch) approaches)
          @ table_head
          @ map py_print (table_rows fmt2 fmt1
                            (map (\<lambda>(script, label). (label, snd (launch script))) approaches))
          @ table_foot)"
  by (simp add: harness_main_def harness_loop_spec table_loop_rows)

lemma launches_of_harness:
  "launches_of (harness_intro @ concat (map (harness_section launch) approaches) @ table_head
                @ map py_print rows @ table_foot) = map fst approaches"
  by (simp add: launches_of_append launches_of_prints launches_of_section approaches_def
      harness_intro_def table_head_def table_foot_def py_print_def)

lemma table_rows_labels:
  "map (take 35) (table_rows fmt2 fmt1
                    (map (\<lambda>(script, label). (label, snd (launch script))) approaches))
     = map (\<lambda>(script, label). ljust 35 label) approaches"
  by (simp add: table_rows_def table_row_def approaches_def ljust_def)

text \<open>
  C7: whatever the launched subprocesses return, exit status included, the harness
  launches all four scripts in order, ends normally, and prints the table with one row per
  approach, each row starting with the approach's label; the captured standard-error text
  of a subprocess is part of what the harness prints in that approach's section, as the
  line \<open>Error: ...\<close> whenever the text is not empty.
\<close>

theorem harness_tolerates_failure:
  assumes "(script, label) \<in> set approaches"
  shows "\<exists>tr rows.
           harness_main launch fmt2 fmt1 = Inr tr
           \<and> launches_of tr = map fst approaches
           \<and> tr = harness_intro @ concat (map (harness_section launch) approaches)
                   @ table_head @ map py_print rows @ table_foot
           \<and> rows = table_rows fmt2 fmt1
                       (map (\<lambda>(script, label). (label, snd (launch script))) approaches)
           \<and> length rows = length approaches
           \<and> map (take 35) rows = map (\<lambda>(script, label). ljust 35 label) approaches
           \<and> sublist (stderr (fst (launch script)))
                       (stdout_of (harness_section launch (script, label)))
           \<and> (stderr (fst (launch script)) \<noteq> [] \<longrightarrow>
                py_print (''Error: '' @ stderr (fst (launch script)))
                  \<in> set (harness_section launch (script, label)))"
proof -
  define rows where
    "rows = table_rows fmt2 fmt1 (map (\<lambda>(script, label). (label, snd (launch script))) approaches)"
  define tr where
    "tr = harness_intro @ concat (map (harness_section launch) approaches)
          @ table_head @ map py_print rows @ table_foot"
  have 1: "harness_main launch fmt2 fmt1 = Inr tr"
    unfolding tr_def rows_def by (rule harness_main_value)
  have 2: "launches_of tr = map fst approaches"
    unfolding tr_def by (rule launches_of_harness)
  have 3: "length rows = length approaches"
    by (simp add: rows_def table_rows_def)
  have 4: "map (take 35) rows = map (\<lambda>(script, label). ljust 35 label) approaches"
    unfolding rows_def by (rule table_rows_labels)
  have 5: "sublist (stderr (fst (launch script)))
             (stdout_of (harness_section launch (script, label)))"
    by (rule stderr_in_section)
  have 6: "stderr (fst (launch script)) \<noteq> [] \<longrightarrow>
             py_print (''Error: '' @ stderr (fst (launch script)))
               \<in> set (harness_section launch (script, label))"
    by (simp add: harness_section_value)
  show ?thesis
    using 1 2 3 4 5 6 tr_def rows_def by blast
qed

theorem harness_tolerates_failure_witness:
  "(''02_threadpool.py'', ''ThreadPool (14 threads)'') \<in> set approaches
   \<and> returncode (fst (example_launch ''02_threadpool.py'')) = 1
   \<and> stderr (fst (example_launch ''02_threadpool.py'')) = ''Traceback'' @ [newline]
   \<and> (\<exists>tr rows.
           harness_main example_launch (\<lambda>t. ''t'') (\<lambda>s. ''s'') = Inr tr
           \<and> launches_of tr = map fst approaches
           \<and> tr = harness_intro @ concat (map (harness_section example_launch) approaches)
                   @ table_head @ map py_print rows @ table_foot
           \<and> rows = table_rows (\<lambda>t. ''t'') (\<lambda>s. ''s'')
                       (map (\<lambda>(script, label). (label, snd (example_launch script))) approaches)
           \<and> length rows = length approaches
           \<and> map (take 35) rows = map (\<lambda>(script, label). ljust 35 label) approaches
           \<and> sublist (stderr (fst (example_launch ''02_threadpool.py'')))
                       (stdout_of (harness_section example_launch
                                     (''02_threadpool.py'', ''ThreadPool (14 threads)'')))
           \<and> (stderr (fst (example_launch ''02_threadpool.py'')) \<noteq> [] \<longrightarrow>
                py_print (''Error: '' @ stderr (fst (example_launch ''02_threadpool.py'')))
                  \<in> set (harness_section example_launch
                            (''02_threadpool.py'', ''ThreadPool (14 threads)''))))"
proof -
  have h: "(''02_threadpool.py'', ''ThreadPool (14 threads)'') \<in> set approaches"
    by (simp add: approaches_def)
  have r: "returncode (fst (example_launch ''02_threadpool.py'')) = 1"
    "stderr (fst (example_launch ''02_threadpool.py'')) = ''Traceback'' @ [newline]"
    by (simp_all add: example_launch_def)
  show ?thesis
    using harness_tolerates_failure [OF h, of example_launch "\<lambda>t. ''t''" "\<lambda>s. ''s''"] h r
    by blast
qed

section \<open>The text a runner prints\<close>

lemma unlines_append: "unlines (xs @ ys) = unlines xs @ unlines ys"
  by (simp add: unlines_def)

lemma stdout_of_prints: "stdout_of (map py_print ls) = unlines ls"
  by (induction ls) (simp_all add: py_print_def unlines_def)

lemma stdout_of_concat_silent:
  "(\<And>x. x \<in> set xs \<Longrightarrow> stdout_of (f x) = []) \<Longrightarrow> stdout_of (concat (map f xs)) = []"
  by (induction xs) (simp_all add: stdout_of_append)

lemma stdout_of_banner:
  "stdout_of (banner title) = unlines [str_times CHR ''='' 50, title, str_times CHR ''='' 50]"
  by (simp add: banner_def py_print_def unlines_def)

lemma py_str_14: "py_str (int (length numbers)) = Inr ''14''"
proof -
  have "digits (int (length numbers)) \<le> int_max_str_digits"
    by (rule small_digits) (simp add: numbers_def)
  then have "py_str (int (length numbers)) = Inr (decimal (int (length numbers)))"
    by (rule py_str_ok)
  moreover have "decimal (int (length numbers)) = ''14''"
    by (simp add: numbers_def decimal_def str_nat.simps digit_char_def)
  ultimately show ?thesis by simp
qed

lemma closing_value:
  "closing fmt2 elapsed tips =
     ([py_print (newline # ''[TIME] Total Time: '' @ fmt2 elapsed @ '' seconds''),
       py_print ''[INFO] Items processed: 14''] @ map py_print tips, None)"
  by (simp add: closing_def py_str_14)

lemma stdout_of_closing:
  "stdout_of (fst (closing fmt2 elapsed tips)) =
     unlines ([[], ''[TIME] Total Time: '' @ fmt2 elapsed @ '' seconds'',
               ''[INFO] Items processed: 14''] @ tips)"
proof -
  have "stdout_of [py_print (newline # ''[TIME] Total Time: '' @ fmt2 elapsed @ '' seconds''),
                   py_print ''[INFO] Items processed: 14'']
          = unlines [[], ''[TIME] Total Time: '' @ fmt2 elapsed @ '' seconds'',
                     ''[INFO] Items processed: 14'']"
    by (simp add: py_print_def unlines_def)
  then show ?thesis
    unfolding closing_value fst_conv stdout_of_append unlines_append stdout_of_prints by simp
qed

lemma and_then_closing:
  "and_then (tr, None) (closing fmt2 elapsed tips) = (tr @ fst (closing fmt2 elapsed tips), None)"
  by (simp add: and_then_def closing_value)

lemma print_results_lines: "print_results (map Inr ls) = (map py_print ls, None)"
  by (induction ls) simp_all

lemma stdout_of_sequential_trace:
  "stdout_of (concat (map (\<lambda>n. [Sleep 2, py_print (line_of n)]) ns)) = unlines (map line_of ns)"
  by (induction ns) (simp_all add: py_print_def unlines_def)

lemma unlines_runner_layout:
  "unlines (runner_layout title results time_text tips) =
     unlines [str_times CHR ''='' 50, title, str_times CHR ''='' 50]
     @ unlines results
     @ unlines ([[], ''[TIME] Total Time: '' @ time_text @ '' seconds'',
                 ''[INFO] Items processed: 14''] @ tips)"
  by (simp only: runner_layout_def unlines_append)

lemma sequential_main_stdout:
  "\<exists>tr. sequential_main fmt2 elapsed = (tr, None)
      \<and> stdout_of tr =
          unlines (runner_layout ''APPROACH 1: Sequential (No Parallelism)''
                     (map line_of numbers) (fmt2 elapsed)
                     [''[TIP]  Each item waited 2 sec, all ran one-by-one''])"
proof -
  define tr where
    "tr = (banner ''APPROACH 1: Sequential (No Parallelism)''
           @ concat (map (\<lambda>n. [Sleep 2, py_print (line_of n)]) numbers))
          @ fst (closing fmt2 elapsed [''[TIP]  Each item waited 2 sec, all ran one-by-one''])"
  have l: "sequential_loop numbers ([], banner ''APPROACH 1: Sequential (No Parallelism)'') =
          (banner ''APPROACH 1: Sequential (No Parallelism)''
           @ concat (map (\<lambda>n. [Sleep 2, py_print (line_of n)]) numbers),
           Inr ([] @ map line_of numbers))"
    by (rule sequential_loop_spec) (simp add: numbers_small)
  have m: "sequential_main fmt2 elapsed = (tr, None)"
    unfolding sequential_main_def l tr_def by (simp add: and_then_closing)
  have "stdout_of tr =
          unlines (runner_layout ''APPROACH 1: Sequential (No Parallelism)''
                     (map line_of numbers) (fmt2 elapsed)
                     [''[TIP]  Each item waited 2 sec, all ran one-by-one''])"
    unfolding tr_def
    by (simp only: stdout_of_append stdout_of_banner stdout_of_closing
        stdout_of_sequential_trace unlines_runner_layout append_assoc)
  then show ?thesis using m by blast
qed

lemma pool_main_stdout:
  assumes "valid_schedule (length numbers) sched"
  shows "\<exists>tr. pool_main title tip fmt2 elapsed sched = Some (tr, None)
             \<and> stdout_of tr =
                 unlines (runner_layout title (map line_of numbers) (fmt2 elapsed) [tip])"
proof -
  define tr0 where "tr0 = concat (map (\<lambda>(i, w). fst (square_number (numbers ! i))) sched)"
  define rs where "rs = map line_of numbers"
  define tr where "tr = ((banner title @ tr0) @ map py_print rs) @ fst (closing fmt2 elapsed [tip])"
  have silent: "stdout_of tr0 = []"
    unfolding tr0_def by (rule stdout_of_concat_silent) (simp add: square_number_def case_prod_beta)
  have p: "pool_results sched = Some (tr0, map Inr rs)"
    unfolding tr0_def rs_def by (rule pool_results_lines [OF assms])
  have m: "pool_main title tip fmt2 elapsed sched = Some (tr, None)"
    unfolding tr_def
    by (simp add: pool_main_def p print_results_lines and_then_def closing_value)
  have "stdout_of tr = unlines (runner_layout title rs (fmt2 elapsed) [tip])"
    unfolding tr_def
    by (simp only: stdout_of_append stdout_of_banner stdout_of_closing stdout_of_prints silent
        unlines_runner_layout append_Nil append_Nil2 append_assoc)
  then show ?thesis
    using m unfolding rs_def by blast
qed

lemma hybrid_trace_silent:
  assumes "valid_hybrid_schedule sched"
    and "hybrid_results sched = Some (tr, results)"
  shows "stdout_of tr = []"
proof -
  define cs :: "int list list" where "cs = [[1, 2, 3, 4, 5], [6, 7, 8, 9, 10], [11, 12, 13, 14]]"
  have ch: "chunks = Inr cs" by (simp add: cs_def chunks_value)
  from assms(1) have v: "valid_schedule (length cs) sched"
    and la: "list_all (\<lambda>(i, w). valid_schedule (length (cs ! i)) (threads w)) sched"
    unfolding valid_hybrid_schedule_def ch by simp_all
  have vt: "valid_schedule (length (cs ! i)) (threads w)" if "(i, w) \<in> set sched" for i w
    using la that by (auto simp: list_all_iff)
  have pc: "process_chunk w (cs ! i) =
              Some (concat (map (\<lambda>(j, t). fst (square_number_hybrid (pid w) (cs ! i ! j))) (threads w)),
                    py_list (map (\<lambda>n. snd (square_number_hybrid (pid w) n)) (cs ! i)))"
    if "(i, w) \<in> set sched" for i w
    unfolding process_chunk_def by (simp add: executor_map_order [OF vt [OF that]])
  have ok: "\<forall>(i, w) \<in> set sched. process_chunk w (cs ! i) \<noteq> None"
    using pc by auto
  have "executor_map process_chunk cs sched =
          Some (concat (map (\<lambda>(i, w). fst (the (process_chunk w (cs ! i)))) sched),
                map (\<lambda>i. snd (the (process_chunk (the (map_of sched i)) (cs ! i)))) [0..<length cs])"
    by (rule executor_map_results [OF v ok])
  with assms(2) have tr: "tr = concat (map (\<lambda>(i, w). fst (the (process_chunk w (cs ! i)))) sched)"
    unfolding hybrid_results_def ch by simp
  have "stdout_of (case x of (i, w) \<Rightarrow> fst (the (process_chunk w (cs ! i)))) = []"
    if "x \<in> set sched" for x
  proof -
    obtain i w where x: "x = (i, w)" by (cases x)
    have "stdout_of (concat (map (\<lambda>(j, t). fst (square_number_hybrid (pid w) (cs ! i ! j)))
                               (threads w))) = []"
      by (rule stdout_of_concat_silent) (simp add: square_number_hybrid_def case_prod_beta)
    then show ?thesis
      using pc that x by simp
  qed
  then show ?thesis
    unfolding tr by (rule stdout_of_concat_silent)
qed

lemma hybrid_main_stdout:
  assumes "valid_hybrid_schedule sched"
  shows "\<exists>tr pids.
           hybrid_main fmt2 elapsed sched = Some (tr, None)
           \<and> length pids = length numbers
           \<and> stdout_of tr =
               unlines (runner_layout hybrid_title
                          (map (\<lambda>(p, n). line_of_hybrid p n) (zip pids numbers))
                          (fmt2 elapsed)
                          [''[TIP]  3 processes x 3 threads = 9 parallel workers'',
                           ''[TIP]  Notice different PIDs -- proves separate processes!''])"
proof -
  obtain tr0 and w0 w1 w2 :: worker where
    r: "hybrid_results sched =
             Some (tr0, Inr (map (line_of_hybrid (pid w0)) [1, 2, 3, 4, 5]
                             @ map (line_of_hybrid (pid w1)) [6, 7, 8, 9, 10]
                             @ map (line_of_hybrid (pid w2)) [11, 12, 13, 14]))"
    using hybrid_results_value [OF assms] by blast
  define pids where "pids = replicate 5 (pid w0) @ replicate 5 (pid w1) @ replicate 4 (pid w2)"
  define rs where "rs = map (\<lambda>(p, n). line_of_hybrid p n) (zip pids numbers)"
  define tips where
    "tips = [''[TIP]  3 processes x 3 threads = 9 parallel workers'',
             ''[TIP]  Notice different PIDs -- proves separate processes!'']"
  define tr where
    "tr = ((banner hybrid_title @ tr0) @ map py_print rs) @ fst (closing fmt2 elapsed tips)"
  have rs: "map (line_of_hybrid (pid w0)) [1, 2, 3, 4, 5]
              @ map (line_of_hybrid (pid w1)) [6, 7, 8, 9, 10]
              @ map (line_of_hybrid (pid w2)) [11, 12, 13, 14] = rs"
    by (simp add: rs_def pids_def numbers_def numeral_eq_Suc)
  have r': "hybrid_results sched = Some (tr0, Inr rs)"
    using r unfolding rs .
  have silent: "stdout_of tr0 = []"
    by (rule hybrid_trace_silent [OF assms r'])
  have m: "hybrid_main fmt2 elapsed sched = Some (tr, None)"
    unfolding tr_def tips_def by (simp add: hybrid_main_def r' and_then_def closing_value)
  have "stdout_of tr = unlines (runner_layout hybrid_title rs (fmt2 elapsed) tips)"
    unfolding tr_def
    by (simp only: stdout_of_append stdout_of_banner stdout_of_closing stdout_of_prints silent
        unlines_runner_layout append_Nil append_Nil2 append_assoc)
  moreover have "length pids = length numbers"
    by (simp add: pids_def numbers_def)
  ultimately show ?thesis
    using m unfolding rs_def tips_def by blast
qed

lemma sequential_lines_example:
  "split_lines (stdout_of (fst (sequential_main (\<lambda>t. ''28.00'') 28))) =
     [''=================================================='',
      ''APPROACH 1: Sequential (No Parallelism)'',
      ''=================================================='',
      ''Square of 1 = 1'', ''Square of 2 = 4'', ''Square of 3 = 9'', ''Square of 4 = 16'',
      ''Square of 5 = 25'', ''Square of 6 = 36'', ''Square of 7 = 49'', ''Square of 8 = 64'',
      ''Square of 9 = 81'', ''Square of 10 = 100'', ''Square of 11 = 121'',
      ''Square of 12 = 144'', ''Square of 13 = 169'', ''Square of 14 = 196'',
      [],
      ''[TIME] Total Time: 28.00 seconds'',
      ''[INFO] Items processed: 14'',
      ''[TIP]  Each item waited 2 sec, all ran one-by-one'']"
  by code_simp

text \<open>
  C8, as stated, fails: with an elapsed time printed as \<open>28.00\<close>, no line of the
  sequential runner's output is \<open>Total Time: 28.00 seconds\<close>. The line after the empty
  line is \<open>[TIME] Total Time: 28.00 seconds\<close>, the count line is
  \<open>[INFO] Items processed: 14\<close>, and a \<open>[TIP]\<close> line follows it.
\<close>

theorem runner_output_counterexample:
  "''Total Time: 28.00 seconds''
     \<notin> set (split_lines (stdout_of (fst (sequential_main (\<lambda>t. ''28.00'') 28))))
   \<and> split_lines (stdout_of (fst (sequential_main (\<lambda>t. ''28.00'') 28))) ! 16
        = ''Square of 14 = 196''
   \<and> split_lines (stdout_of (fst (sequential_main (\<lambda>t. ''28.00'') 28))) ! 17 = []
   \<and> split_lines (stdout_of (fst (sequential_main (\<lambda>t. ''28.00'') 28))) ! 18
        = ''[TIME] Total Time: 28.00 seconds''
   \<and> split_lines (stdout_of (fst (sequential_main (\<lambda>t. ''28.00'') 28))) ! 19
        = ''[INFO] Items processed: 14''
   \<and> split_lines (stdout_of (fst (sequential_main (\<lambda>t. ''28.00'') 28))) ! 20
        = ''[TIP]  Each item waited 2 sec, all ran one-by-one''
   \<and> length (split_lines (stdout_of (fst (sequential_main (\<lambda>t. ''28.00'') 28)))) = 21"
  unfolding sequential_lines_example by simp

lemma outcomes_hybrid_numbers:
  assumes "length pids = length numbers"
  shows "map Inr (map (\<lambda>(p, n). line_of_hybrid p n) (zip pids numbers))
           = map (\<lambda>(p, n). snd (square_number_hybrid p n)) (zip pids numbers)"
proof -
  have "snd (square_number_hybrid p n) = Inr (line_of_hybrid p n)"
    if "(p, n) \<in> set (zip pids numbers)" for p n
  proof -
    have "n \<in> set numbers" using that by (rule set_zip_rightD)
    then show ?thesis
      using square_number_hybrid_line [OF numbers_small] by simp
  qed
  then show ?thesis by auto
qed

text \<open>
  C8, amended: each runner ends without an exception, and its standard output is, line by
  line, the three banner lines, one line per result in the form \<open>Square of n = n*n\<close>
  (the hybrid runner appending \<open> (PID: p)\<close>), an empty line, the line
  \<open>[TIME] Total Time: t seconds\<close> with \<open>t\<close> the elapsed time in the format \<open>.2f\<close>,
  the line \<open>[INFO] Items processed: 14\<close>, and one \<open>[TIP]\<close> line (two for the hybrid
  runner).
\<close>

theorem runner_output_layout:
  assumes "valid_schedule (length numbers) thread_sched"
    and "valid_schedule (length numbers) process_sched"
    and "valid_hybrid_schedule hybrid_sched"
  shows "\<exists>results.
           map Inr results = map (\<lambda>n. snd (square_number n)) numbers
         \<and> (\<exists>tr. sequential_main fmt2 elapsed = (tr, None)
                \<and> stdout_of tr =
                    unlines (runner_layout ''APPROACH 1: Sequential (No Parallelism)''
                               results (fmt2 elapsed)
                               [''[TIP]  Each item waited 2 sec, all ran one-by-one'']))
         \<and> (\<exists>tr. threadpool_main fmt2 elapsed thread_sched = Some (tr, None)
                \<and> stdout_of tr =
                    unlines (runner_layout ''APPROACH 2: ThreadPoolExecutor (14 threads)''
                               results (fmt2 elapsed)
                               [''[TIP]  All 14 threads ran simultaneously, GIL released during sleep'']))
         \<and> (\<exists>tr. processpool_main fmt2 elapsed process_sched = Some (tr, None)
                \<and> stdout_of tr =
                    unlines (runner_layout ''APPROACH 3: ProcessPoolExecutor (3 processes)''
                               results (fmt2 elapsed)
                               [''[TIP]  3 processes, ~5 batches of 2 sec each'']))
         \<and> (\<exists>tr pids hybrid_lines.
                hybrid_main fmt2 elapsed hybrid_sched = Some (tr, None)
                \<and> length pids = length numbers
                \<and> map Inr hybrid_lines =
                    map (\<lambda>(p, n). snd (square_number_hybrid p n)) (zip pids numbers)
                \<and> stdout_of tr =
                    unlines (runner_layout hybrid_title hybrid_lines (fmt2 elapsed)
                               [''[TIP]  3 processes x 3 threads = 9 parallel workers'',
                                ''[TIP]  Notice different PIDs -- proves separate processes!'']))"
proof -
  have 0: "map Inr (map line_of numbers) = map (\<lambda>n. snd (square_number n)) numbers"
    by (simp only: outcomes_numbers)
  have 4: "\<exists>tr pids hybrid_lines.
                hybrid_main fmt2 elapsed hybrid_sched = Some (tr, None)
                \<and> length pids = length numbers
                \<and> map Inr hybrid_lines =
                    map (\<lambda>(p, n). snd (square_number_hybrid p n)) (zip pids numbers)
                \<and> stdout_of tr =
                    unlines (runner_layout hybrid_title hybrid_lines (fmt2 elapsed)
                               [''[TIP]  3 processes x 3 threads = 9 parallel workers'',
                                ''[TIP]  Notice different PIDs -- proves separate processes!''])"
    using hybrid_main_stdout [OF assms(3), of fmt2 elapsed] outcomes_hybrid_numbers by blast
  show ?thesis
    using 0 4 sequential_main_stdout [of fmt2 elapsed]
      pool_main_stdout [OF assms(1), of "''APPROACH 2: ThreadPoolExecutor (14 threads)''"
        "''[TIP]  All 14 threads ran simultaneously, GIL released during sleep''" fmt2 elapsed]
      pool_main_stdout [OF assms(2), of "''APPROACH 3: ProcessPoolExecutor (3 processes)''"
        "''[TIP]  3 processes, ~5 batches of 2 sec each''" fmt2 elapsed]
    unfolding threadpool_main_def processpool_main_def
    by blast
qed

theorem runner_output_layout_witness:
  "valid_schedule (length numbers) example_thread_schedule
   \<and> valid_schedule (length numbers) example_process_schedule
   \<and> valid_hybrid_schedule example_hybrid_schedule
   \<and> (\<exists>results.
           map Inr results = map (\<lambda>n. snd (square_number n)) numbers
         \<and> (\<exists>tr. sequential_main (\<lambda>t. ''28.00'') 28 = (tr, None)
                \<and> stdout_of tr =
                    unlines (runner_layout ''APPROACH 1: Sequential (No Parallelism)''
                               results ''28.00''
                               [''[TIP]  Each item waited 2 sec, all ran one-by-one'']))
         \<and> (\<exists>tr. threadpool_main (\<lambda>t. ''28.00'') 28 example_thread_schedule = Some (tr, None)
                \<and> stdout_of tr =
                    unlines (runner_layout ''APPROACH 2: ThreadPoolExecutor (14 threads)''
                               results ''28.00''
                               [''[TIP]  All 14 threads ran simultaneously, GIL released during sleep'']))
         \<and> (\<exists>tr. processpool_main (\<lambda>t. ''28.00'') 28 example_process_schedule = Some (tr, None)
                \<and> stdout_of tr =
                    unlines (runner_layout ''APPROACH 3: ProcessPoolExecutor (3 processes)''
                               results ''28.00''
                               [''[TIP]  3 processes, ~5 batches of 2 sec each'']))
         \<and> (\<exists>tr pids hybrid_lines.
                hybrid_main (\<lambda>t. ''28.00'') 28 example_hybrid_schedule = Some (tr, None)
                \<and> length pids = length numbers
                \<and> map Inr hybrid_lines =
                    map (\<lambda>(p, n). snd (square_number_hybrid p n)) (zip pids numbers)
                \<and> stdout_of tr =
                    unlines (runner_layout hybrid_title hybrid_lines ''28.00''
                               [''[TIP]  3 processes x 3 threads = 9 parallel workers'',
                                ''[TIP]  Notice different PIDs -- proves separate processes!''])))"
  using runner_output_layout [OF example_thread_schedule_valid example_process_schedule_valid
      example_hybrid_schedule_valid, of "\<lambda>t. ''28.00''" 28]
    example_thread_schedule_valid example_process_schedule_valid example_hybrid_schedule_valid
  by blast

section \<open>The workload function\<close>

lemma digits_196: "digits (14 * 14) \<le> int_max_str_digits"
  by (rule small_digits) simp

lemma digits_big: "int_max_str_digits < digits (10 ^ 2150 * 10 ^ 2150)"
proof -
  have "digits ((10::int) ^ 2150 * 10 ^ 2150) = Suc (2150 + 2150)"
    by (rule digits_power10_square)
  then show ?thesis
    by (simp only: int_max_str_digits_def)
qed

text \<open>
  C5, as stated for every integer, fails: the square of \<open>10 ^ 2150\<close> has 4301 decimal
  digits, one more than the conversion of an integer to text allows, and the call raises
  \<open>ValueError\<close> after the sleep instead of returning a line.
\<close>

theorem workload_function_counterexample:
  "square_number (10 ^ 2150) = ([Sleep 2], Inl ValueError)"
  by (rule square_number_raises(1) [OF digits_big])

text \<open>
  C5, amended: for every integer \<open>n\<close> whose square has at most 4300 decimal digits (that
  is, with \<open>\<bar>n\<bar> < 10 ^ 2150\<close>) the workload function returns the line
  \<open>Square of n = n*n\<close>, in which the two numbers read back as \<open>n\<close> and its square; the
  hybrid variant returns the same line followed by \<open> (PID: p)\<close> for the process \<open>p\<close> it
  runs in. For every other \<open>n\<close> both raise \<open>ValueError\<close>. In either case the only effect
  is the one sleep of two seconds: nothing is printed.
\<close>

theorem workload_function_result:
  "(digits (n * n) \<le> int_max_str_digits \<longrightarrow>
      square_number n = ([Sleep 2], Inr (''Square of '' @ decimal n @ '' = '' @ decimal (n * n)))
      \<and> embedded_numbers (''Square of '' @ decimal n @ '' = '' @ decimal (n * n)) = Some (n, n * n)
      \<and> square_number_hybrid p n =
          ([Sleep 2], Inr (''Square of '' @ decimal n @ '' = '' @ decimal (n * n)
                           @ '' (PID: '' @ decimal (uint p) @ '')''))
      \<and> embedded_numbers (''Square of '' @ decimal n @ '' = '' @ decimal (n * n)
                            @ '' (PID: '' @ decimal (uint p) @ '')'') = Some (n, n * n))
   \<and> (int_max_str_digits < digits (n * n) \<longrightarrow>
        square_number n = ([Sleep 2], Inl ValueError)
        \<and> square_number_hybrid p n = ([Sleep 2], Inl ValueError))
   \<and> fst (square_number n) = [Sleep 2] \<and> fst (square_number_hybrid p n) = [Sleep 2]
   \<and> stdout_of (fst (square_number n)) = [] \<and> stdout_of (fst (square_number_hybrid p n)) = []"
proof -
  have a: "embedded_numbers (''Square of '' @ decimal n @ '' = '' @ decimal (n * n) @ [])
             = Some (n, n * n)"
    by (rule embedded_numbers_line) (simp add: no_digit_ahead_def)
  have b: "embedded_numbers (''Square of '' @ decimal n @ '' = '' @ decimal (n * n)
             @ ('' (PID: '' @ decimal (uint p) @ '')'')) = Some (n, n * n)"
    by (rule embedded_numbers_line) (simp add: no_digit_ahead_def is_digit_def)
  have c: "fst (square_number n) = [Sleep 2]" "fst (square_number_hybrid p n) = [Sleep 2]"
    by (simp_all add: square_number_def square_number_hybrid_def)
  show ?thesis
    using a b c square_number_ok [of n] square_number_hybrid_ok [of n p]
      square_number_raises(1) [of n] square_number_raises(2) [of n p]
    by simp
qed

theorem workload_function_result_witness:
  "digits (14 * 14) \<le> int_max_str_digits
   \<and> square_number 14 = ([Sleep 2], Inr ''Square of 14 = 196'')
   \<and> embedded_numbers ''Square of 14 = 196'' = Some (14, 196)
   \<and> square_number_hybrid 4711 14 = ([Sleep 2], Inr ''Square of 14 = 196 (PID: 4711)'')
   \<and> embedded_numbers ''Square of 14 = 196 (PID: 4711)'' = Some (14, 196)
   \<and> int_max_str_digits < digits (10 ^ 2150 * 10 ^ 2150)
   \<and> square_number (10 ^ 2150) = ([Sleep 2], Inl ValueError)
   \<and> square_number_hybrid 4711 (10 ^ 2150) = ([Sleep 2], Inl ValueError)"
proof -
  have d: "decimal 14 = ''14''" "decimal (14 * 14) = ''196''" "decimal (uint (4711 :: 32 word)) = ''4711''"
    by (simp_all add: decimal_def str_nat.simps digit_char_def)
  have s: "(14::int) * 14 = 196" by simp
  have w: "square_number 14 = ([Sleep 2], Inr ''Square of 14 = 196'')
           \<and> embedded_numbers ''Square of 14 = 196'' = Some (14, 196)
           \<and> square_number_hybrid 4711 14 = ([Sleep 2], Inr ''Square of 14 = 196 (PID: 4711)'')
           \<and> embedded_numbers ''Square of 14 = 196 (PID: 4711)'' = Some (14, 196)"
    using workload_function_result [of 14 4711] digits_196 unfolding d by (simp add: s)
  have e: "square_number (10 ^ 2150) = ([Sleep 2], Inl ValueError)
           \<and> square_number_hybrid 4711 (10 ^ 2150) = ([Sleep 2], Inl ValueError)"
    using workload_function_result [of "10 ^ 2150" 4711] digits_big by blast
  show ?thesis
    using w e digits_196 digits_big by blast
qed

end
